theory Spec2Isabelle
  imports Complex_Main "HOL-Library.Log_Nat" "HOL-Library.Sublist"
begin

section \<open>Python library functions used by \<^verbatim>\<open>UnsplashDownloader.run\<close>\<close>

subsection \<open>Strings\<close>

text \<open>
  A Python \<^verbatim>\<open>str\<close> holding an HTTP header value or a JSON string is modelled as a
  \<^typ>\<open>string\<close>; header values reach the program decoded as ISO-8859-1, so one
  \<^typ>\<open>char\<close> is one code point below 256. A value that may be \<^verbatim>\<open>None\<close> is a
  \<^typ>\<open>string option\<close>; \<open>truthy\<close> is Python's truth test on it.
\<close>

definition truthy :: "string option \<Rightarrow> bool" where
  "truthy v = (case v of None \<Rightarrow> False | Some s \<Rightarrow> s \<noteq> [])"

text \<open>\<^verbatim>\<open>a or b\<close> on such values.\<close>

definition py_or :: "string option \<Rightarrow> string option \<Rightarrow> string option" where
  "py_or a b = (if truthy a then a else b)"

definition code_point :: "char \<Rightarrow> nat" where
  "code_point c = of_char c"

text \<open>The decimal digits \<^verbatim>\<open>0\<close>..\<^verbatim>\<open>9\<close>, the only ones \<^verbatim>\<open>int()\<close> accepts below 256.\<close>

definition is_decimal :: "char \<Rightarrow> bool" where
  "is_decimal c = (48 \<le> code_point c \<and> code_point c \<le> 57)"

text \<open>
  \<^verbatim>\<open>str.isdigit()\<close> is true of every character whose Unicode numeric type is Digit or
  Decimal: below 256 these are the decimal digits and the superscripts U+00B2, U+00B3
  and U+00B9.
\<close>

definition is_digit_char :: "char \<Rightarrow> bool" where
  "is_digit_char c = (is_decimal c \<or> code_point c = 178 \<or> code_point c = 179 \<or> code_point c = 185)"

definition isdigit :: "string \<Rightarrow> bool" where
  "isdigit s = (s \<noteq> [] \<and> list_all is_digit_char s)"

text \<open>White space as \<^verbatim>\<open>int()\<close> strips it (\<^verbatim>\<open>str.isspace\<close> below 256).\<close>

definition is_space :: "char \<Rightarrow> bool" where
  "is_space c = (code_point c \<in> {9, 10, 11, 12, 13, 28, 29, 30, 31, 32, 133, 160})"

definition strip :: "string \<Rightarrow> string" where
  "strip s = rev (dropWhile is_space (rev (dropWhile is_space s)))"

definition digit_value :: "char \<Rightarrow> int" where
  "digit_value c = int (code_point c) - 48"

text \<open>
  \<^verbatim>\<open>int(s)\<close> in base 10: surrounding white space, an optional sign, then decimal digits
  with single underscores allowed between two digits. \<open>None\<close> is \<^verbatim>\<open>ValueError\<close>.
  (The interpreter's limit on the number of digits of one conversion is not modelled.)
\<close>

fun parse_digits :: "int \<Rightarrow> string \<Rightarrow> int option" where
  "parse_digits acc [] = Some acc"
| "parse_digits acc [c] = (if is_decimal c then Some (10 * acc + digit_value c) else None)"
| "parse_digits acc (c # d # cs) =
     (if is_decimal c then parse_digits (10 * acc + digit_value c) (d # cs)
      else if c = CHR ''_'' \<and> is_decimal d then parse_digits (10 * acc + digit_value d) cs
      else None)"

definition parse_unsigned :: "string \<Rightarrow> int option" where
  "parse_unsigned s =
     (case s of [] \<Rightarrow> None
      | c # cs \<Rightarrow> if is_decimal c then parse_digits (digit_value c) cs else None)"

definition py_int :: "string \<Rightarrow> int option" where
  "py_int s =
     (case strip s of [] \<Rightarrow> None
      | c # cs \<Rightarrow>
          if c = CHR ''+'' then parse_unsigned cs
          else if c = CHR ''-'' then map_option uminus (parse_unsigned cs)
          else parse_unsigned (c # cs))"

text \<open>\<^verbatim>\<open>needle in haystack\<close> on strings.\<close>

fun contains :: "string \<Rightarrow> string \<Rightarrow> bool" where
  "contains needle [] = (needle = [])"
| "contains needle (c # cs) = (prefix needle (c # cs) \<or> contains needle cs)"

text \<open>\<^verbatim>\<open>keyword.replace(" ", "_")\<close>.\<close>

definition safe_keyword :: "string \<Rightarrow> string" where
  "safe_keyword kw = map (\<lambda>c. if c = CHR '' '' then CHR ''_'' else c) kw"

subsection \<open>Floating point\<close>

text \<open>
  A Python \<^verbatim>\<open>float\<close> is an IEEE 754 binary64 number; the finite ones are rationals.
  \<open>to_double x\<close> is the binary64 number nearest to \<open>x\<close>, ties to the even significand
  of 53 bits. The exponent range is taken as unbounded: overflow to infinity and
  gradual underflow are not modelled.
\<close>

definition fl_exponent :: "rat \<Rightarrow> int" where
  "fl_exponent x =
     (let (a, b) = quotient_of x; d = bitlen a - bitlen b
      in if 2 powi d \<le> x then d else d - 1)"

definition round_half_even :: "rat \<Rightarrow> int" where
  "round_half_even y =
     (let f = \<lfloor>y\<rfloor>; d = y - of_int f
      in if d < 1 / 2 then f else if 1 / 2 < d then f + 1 else if even f then f else f + 1)"

definition to_double :: "rat \<Rightarrow> rat" where
  "to_double x =
     (if x = 0 then 0
      else let e = fl_exponent \<bar>x\<bar>; c = 2 powi (52 - e)
           in sgn x * of_int (round_half_even (\<bar>x\<bar> * c)) / c)"

text \<open>The literal \<^verbatim>\<open>0.9\<close>.\<close>

definition double_0_9 :: rat where
  "double_0_9 = to_double (9 / 10)"

text \<open>\<^verbatim>\<open>n * x\<close> for an int \<open>n\<close> and a float \<open>x\<close>: \<open>n\<close> is converted, then multiplied.\<close>

definition int_times_float :: "int \<Rightarrow> rat \<Rightarrow> rat" where
  "int_times_float n x = to_double (to_double (of_int n) * x)"

text \<open>\<^verbatim>\<open>x / n\<close> for a float \<open>x\<close> and an int \<open>n \<noteq> 0\<close>.\<close>

definition float_div_int :: "rat \<Rightarrow> int \<Rightarrow> rat" where
  "float_div_int x n = to_double (x / to_double (of_int n))"

text \<open>\<^verbatim>\<open>a / b\<close> for ints: the quotient, correctly rounded.\<close>

definition int_truediv :: "int \<Rightarrow> int \<Rightarrow> rat" where
  "int_truediv a b = to_double (of_int a / of_int b)"

text \<open>\<^verbatim>\<open>int(x)\<close> for a float: truncation towards zero.\<close>

definition int_of_float :: "rat \<Rightarrow> int" where
  "int_of_float x = (if 0 \<le> x then \<lfloor>x\<rfloor> else \<lceil>x\<rceil>)"

section \<open>Data\<close>

text \<open>A job is the dict \<^verbatim>\<open>{"keyword": str, "count": int}\<close>.\<close>

record job =
  keyword :: string
  count :: int

text \<open>The attributes set by \<^verbatim>\<open>__init__\<close> (the strings already stripped).\<close>

record config =
  access_key :: string
  jobs :: "job list"
  limit_per_hour :: int
  orientation :: string
  color :: string
  order_by :: string
  content_filter :: string
  auto_retry :: bool

text \<open>One element of \<^verbatim>\<open>results\<close>: \<^verbatim>\<open>photo.get("id")\<close>,
  \<^verbatim>\<open>links.get("download_location")\<close>, \<^verbatim>\<open>urls.get("full")\<close>, \<^verbatim>\<open>urls.get("regular")\<close>.\<close>

record photo =
  pid :: "string option"
  download_location :: "string option"
  url_full :: "string option"
  url_regular :: "string option"

text \<open>
  A response of the search endpoint. \<open>results\<close> is \<open>None\<close> when \<^verbatim>\<open>resp.json()\<close> raises
  or the body is not an object whose \<^verbatim>\<open>results\<close> is a list of photo objects.
\<close>

record search_resp =
  status_code :: int
  hdr_remaining :: "string option"
  hdr_reset :: "string option"
  body_text :: string
  results :: "photo list option"

datatype search_reply = RequestFailed | Response search_resp

text \<open>
  The tracking call: it raises, or it answers with a status and a body; the body is
  \<open>None\<close> when \<^verbatim>\<open>track_resp.json()\<close> or \<^verbatim>\<open>dl_json.get\<close> raises, and otherwise
  \<open>Some\<close> of \<^verbatim>\<open>dl_json.get("url")\<close>.
\<close>

datatype track_reply = TrackFailed | TrackResponse int "string option option"

text \<open>
  The image fetch: it raises, or it answers with a status; the flag tells whether
  writing the file then succeeds (\<^verbatim>\<open>open\<close> or a chunk may raise).
\<close>

datatype fetch_reply = FetchFailed | FetchResponse int bool

text \<open>
  Everything outside the program. The network answers the \<open>n\<close>-th call of each kind;
  \<open>clock n\<close> is \<^verbatim>\<open>int(time.time())\<close> read while the \<open>n\<close>-th search response is
  handled. \<^verbatim>\<open>stop()\<close> only ever sets \<^verbatim>\<open>_stop_flag\<close>, so the flag is false for the
  first \<open>stop_after\<close> reads and true from then on (\<open>None\<close>: never set).
\<close>

record world =
  env_key :: string
  mkdir_ok :: bool
  stop_after :: "nat option"
  clock :: "nat \<Rightarrow> int"
  search_net :: "nat \<Rightarrow> search_reply"
  track_net :: "nat \<Rightarrow> track_reply"
  fetch_net :: "nat \<Rightarrow> fetch_reply"

text \<open>The query parameters of one search request.\<close>

record params =
  p_query :: string
  p_page :: int
  p_per_page :: int
  p_order_by :: string
  p_content_filter :: string
  p_orientation :: "string option"
  p_color :: "string option"

text \<open>The texts sent through the \<^verbatim>\<open>progress\<close> signal, by the line that builds them.\<close>

datatype message =
    BudgetInfo int int rat
  | StopRequested
  | JobStart nat nat string int
  | Searching nat nat int int nat
  | RateLimitDebug "string option" "string option"
  | RateLimitWait int
  | WaitInterrupted
  | RetryNow
  | NoMoreResults string
  | TrackJsonFailed string
  | TrackHttpFailed string int
  | TrackAccessError string
  | NoUrlSkip string
  | SavedFile int int string
  | FetchStatus int string
  | FetchError string
  | JobDone string int
  | AllDone

text \<open>The texts sent through the \<^verbatim>\<open>error\<close> signal.\<close>

datatype failure =
    NoJobs
  | NoAccessKey
  | ZeroCount
  | SearchRequestError
  | RateLimitTerminal int string
  | HttpError int string
  | Unexpected

text \<open>
  What a run does, in order: the signals it emits, each read of \<^verbatim>\<open>_stop_flag\<close> with
  the value read, each network call, each \<^verbatim>\<open>time.sleep(1)\<close>. \<open>Search j p\<close> is the
  search request made for job number \<open>j\<close>. \<open>Saved j jd td f\<close> is lines 311 to 316: file
  \<open>f\<close> written for job \<open>j\<close>, after which \<^verbatim>\<open>job_downloaded\<close> is \<open>jd\<close> and
  \<^verbatim>\<open>total_downloaded\<close> is \<open>td\<close>.
\<close>

datatype event =
    Progress message
  | ErrorSig failure
  | Finished
  | ProgressMax int
  | ProgressValue int
  | PageMax int
  | PageValue int
  | Poll bool
  | Mkdir
  | Search nat params
  | Track string
  | Fetch string
  | Saved nat int int string
  | Sleep

text \<open>The local variables of \<^verbatim>\<open>run\<close> that outlive one loop body, and the number of
  reads and calls made so far.\<close>

record state =
  polls :: nat
  request_count :: nat
  tracks :: nat
  fetches :: nat
  total_downloaded :: int
  resp :: "search_resp option"

section \<open>The run\<close>

subsection \<open>Rate budget and page count (lines 84, 85 and 117)\<close>

definition safe_limit :: "int \<Rightarrow> int" where
  "safe_limit limit = max 1 (int_of_float (int_times_float limit double_0_9))"

definition interval_sec :: "int \<Rightarrow> rat" where
  "interval_sec safe = float_div_int 3600 safe"

definition per_page :: int where
  "per_page = 30"

definition pages_needed :: "int \<Rightarrow> int" where
  "pages_needed target_count =
     (if target_count > 0 then \<lceil>int_truediv target_count per_page\<rceil> else 0)"

subsection \<open>Traces\<close>

text \<open>
  A function of the run yields the events from its start to the end of the run, given
  what follows it when it ends normally (its last argument). The result is \<open>None\<close>
  when the retry loop of lines 131 to 237 is still running after the given number of
  requests for one page.
\<close>

type_synonym trace = "event list option"

definition emit :: "event \<Rightarrow> trace \<Rightarrow> trace" where
  "emit e t = map_option ((#) e) t"

definition emits :: "event list \<Rightarrow> trace \<Rightarrow> trace" where
  "emits es t = map_option ((@) es) t"

text \<open>The \<^verbatim>\<open>except Exception\<close> of lines 356 to 358.\<close>

definition handler :: trace where
  "handler = Some [ErrorSig Unexpected, Finished]"

text \<open>A read of \<^verbatim>\<open>self._stop_flag\<close>.\<close>

definition stop_flag :: "world \<Rightarrow> state \<Rightarrow> bool" where
  "stop_flag w st = (case stop_after w of None \<Rightarrow> False | Some n \<Rightarrow> n \<le> polls st)"

definition polled :: "state \<Rightarrow> state" where
  "polled st = st\<lparr>polls := Suc (polls st)\<rparr>"

definition poll :: "world \<Rightarrow> state \<Rightarrow> (bool \<Rightarrow> state \<Rightarrow> trace) \<Rightarrow> trace" where
  "poll w st k = emit (Poll (stop_flag w st)) (k (stop_flag w st) (polled st))"

subsection \<open>Rate limit handling (lines 172 to 200)\<close>

definition marker :: string where
  "marker = ''Rate Limit Exceeded''"

definition remaining_int :: "string option \<Rightarrow> int option" where
  "remaining_int remaining = (case remaining of None \<Rightarrow> None | Some s \<Rightarrow> py_int s)"

text \<open>
  The value of \<^verbatim>\<open>wait_sec\<close> after line 200 when auto retry is on, or the
  \<^verbatim>\<open>ValueError\<close> of \<^verbatim>\<open>int(reset_ts)\<close> at line 195, which no handler but the
  outermost catches.
\<close>

datatype wait = ValueError | WaitSec "int option"

definition wait_sec :: "search_resp \<Rightarrow> int \<Rightarrow> wait" where
  "wait_sec r now =
     (if remaining_int (hdr_remaining r) = Some 0 \<and> truthy (hdr_reset r)
         \<and> isdigit (case hdr_reset r of None \<Rightarrow> [] | Some s \<Rightarrow> s)
      then (case py_int (case hdr_reset r of None \<Rightarrow> [] | Some s \<Rightarrow> s) of
              None \<Rightarrow> ValueError
            | Some reset_epoch \<Rightarrow> WaitSec (Some (max 0 (reset_epoch - now))))
      else if contains marker (body_text r) then WaitSec (Some 3600)
      else WaitSec None)"

text \<open>Lines 208 to 215: the wait before a retry; a stop request ends the run.\<close>

fun backoff_wait :: "world \<Rightarrow> nat \<Rightarrow> state \<Rightarrow> (state \<Rightarrow> trace) \<Rightarrow> trace" where
  "backoff_wait w 0 st k = k st"
| "backoff_wait w (Suc n) st k =
     poll w st (\<lambda>b st1.
       if b then Some [Progress WaitInterrupted, Finished]
       else emit Sleep (backoff_wait w n st1 k))"

text \<open>Lines 340 to 344: the wait between two pages; a stop request leaves the loop.\<close>

fun interval_wait :: "world \<Rightarrow> nat \<Rightarrow> state \<Rightarrow> (state \<Rightarrow> trace) \<Rightarrow> trace" where
  "interval_wait w 0 st k = k st"
| "interval_wait w (Suc n) st k =
     poll w st (\<lambda>b st1.
       if b then emit (Progress WaitInterrupted) (k st1)
       else emit Sleep (interval_wait w n st1 k))"

subsection \<open>One page request, with retries (lines 131 to 237)\<close>

definition mk_params :: "config \<Rightarrow> string \<Rightarrow> int \<Rightarrow> params" where
  "mk_params cfg kw page =
     \<lparr>p_query = kw, p_page = page, p_per_page = per_page, p_order_by = order_by cfg,
      p_content_filter = content_filter cfg,
      p_orientation = (if orientation cfg \<noteq> [] then Some (orientation cfg) else None),
      p_color = (if color cfg \<noteq> [] then Some (color cfg) else None)\<rparr>"

text \<open>Line 185: without auto retry no wait is computed.\<close>

definition retry_wait :: "config \<Rightarrow> search_resp \<Rightarrow> int \<Rightarrow> wait" where
  "retry_wait cfg r now = (if auto_retry cfg then wait_sec r now else WaitSec None)"

text \<open>
  Lines 159 to 237: what follows the call of \<^verbatim>\<open>requests.get\<close>. \<open>again\<close> is the next
  turn of the \<^verbatim>\<open>while True\<close> loop (\<^verbatim>\<open>continue\<close>), \<open>k\<close> what follows the loop
  (\<^verbatim>\<open>break\<close>).
\<close>

definition handle_reply ::
  "world \<Rightarrow> config \<Rightarrow> state \<Rightarrow> search_reply \<Rightarrow> (state \<Rightarrow> trace) \<Rightarrow> (state \<Rightarrow> trace) \<Rightarrow> trace"
where
  "handle_reply w cfg st reply again k =
     (case reply of
        RequestFailed \<Rightarrow> Some [ErrorSig SearchRequestError, Finished]
      | Response r \<Rightarrow>
          if status_code r = 200
          then k (st\<lparr>request_count := request_count st + 1, resp := Some r\<rparr>)
          else if status_code r = 403 \<or> status_code r = 429 then
            emit (Progress (RateLimitDebug (hdr_remaining r) (hdr_reset r)))
             (case retry_wait cfg r (clock w (request_count st)) of
                ValueError \<Rightarrow> handler
              | WaitSec (Some ws) \<Rightarrow>
                  emit (Progress (RateLimitWait (ws div 60)))
                    (backoff_wait w (nat ws)
                       (st\<lparr>request_count := request_count st + 1, resp := Some r\<rparr>)
                       (\<lambda>st3. emit (Progress RetryNow) (again st3)))
              | WaitSec None \<Rightarrow>
                  Some [ErrorSig (RateLimitTerminal (status_code r) (take 200 (body_text r))),
                        Finished])
          else Some [ErrorSig (HttpError (status_code r) (take 200 (body_text r))),
                     Finished])"

text \<open>Lines 131 to 237: the \<^verbatim>\<open>while True\<close> loop.\<close>

fun request_page ::
  "nat \<Rightarrow> world \<Rightarrow> config \<Rightarrow> nat \<Rightarrow> string \<Rightarrow> int \<Rightarrow> int \<Rightarrow> state \<Rightarrow> (state \<Rightarrow> trace) \<Rightarrow> trace"
where
  "request_page 0 w cfg ji kw page pn st k = None"
| "request_page (Suc fuel) w cfg ji kw page pn st k =
     poll w st (\<lambda>b st1.
       if b then k st1
       else
         emit (Progress (Searching ji (length (jobs cfg)) page pn (request_count st1 + 1)))
        (emit (Search ji (mk_params cfg kw page))
        (handle_reply w cfg st1 (search_net w (request_count st1))
           (\<lambda>st3. request_page fuel w cfg ji kw page pn st3 k) k)))"

subsection \<open>One photo (lines 259 to 327)\<close>

text \<open>\<^verbatim>\<open>photo.get("id", "unknown")\<close>.\<close>

definition photo_id :: "photo \<Rightarrow> string" where
  "photo_id p = (case pid p of None \<Rightarrow> ''unknown'' | Some i \<Rightarrow> i)"

text \<open>Lines 273 to 290: what the answer of the tracking call gives for
  \<^verbatim>\<open>download_url\<close>, and what is logged.\<close>

definition track_call :: "string \<Rightarrow> track_reply \<Rightarrow> string option \<times> event list" where
  "track_call i reply =
     (case reply of
        TrackFailed \<Rightarrow> (None, [Progress (TrackAccessError i)])
      | TrackResponse code js \<Rightarrow>
          if code = 200 then
            (case js of
               None \<Rightarrow> (None, [Progress (TrackJsonFailed i)])
             | Some u \<Rightarrow> (u, []))
          else (None, [Progress (TrackHttpFailed i code)]))"

text \<open>Lines 264 to 290: the tracking call is made when \<^verbatim>\<open>dl_loc\<close> is true; \<open>k\<close>
  receives \<^verbatim>\<open>download_url\<close>.\<close>

definition track ::
  "world \<Rightarrow> string \<Rightarrow> string option \<Rightarrow> state \<Rightarrow> (string option \<Rightarrow> state \<Rightarrow> trace) \<Rightarrow> trace"
where
  "track w i dl_loc st k =
     (case dl_loc of
        None \<Rightarrow> k None st
      | Some loc \<Rightarrow>
          if loc = [] then k None st
          else
            emit (Track loc)
              (emits (snd (track_call i (track_net w (tracks st))))
                 (k (fst (track_call i (track_net w (tracks st))))
                    (st\<lparr>tracks := tracks st + 1\<rparr>))))"

text \<open>Lines 292 to 294: the fallback.\<close>

definition fallback :: "string option \<Rightarrow> photo \<Rightarrow> string option" where
  "fallback download_url p =
     (if \<not> truthy download_url then py_or (url_full p) (url_regular p) else download_url)"

definition file_name :: "string \<Rightarrow> string \<Rightarrow> string" where
  "file_name kw i = safe_keyword kw @ ''_'' @ i @ ''.jpg''"

text \<open>Lines 302 to 327: the image fetch; \<open>k\<close> receives \<^verbatim>\<open>job_downloaded\<close>.\<close>

definition download ::
  "world \<Rightarrow> nat \<Rightarrow> string \<Rightarrow> int \<Rightarrow> string \<Rightarrow> string \<Rightarrow> int \<Rightarrow> state
    \<Rightarrow> (int \<Rightarrow> state \<Rightarrow> trace) \<Rightarrow> trace"
where
  "download w ji kw total_images i url jd st k =
     emit (Fetch url)
      (let st1 = st\<lparr>fetches := fetches st + 1\<rparr> in
       case fetch_net w (fetches st) of
         FetchFailed \<Rightarrow> emit (Progress (FetchError i)) (k jd st1)
       | FetchResponse code written \<Rightarrow>
           if code = 200 then
             (if written then
                (let td = total_downloaded st1 + 1 in
                 emit (Saved ji (jd + 1) td (file_name kw i))
                (emit (ProgressValue td)
                (emit (Progress (SavedFile td total_images (file_name kw i)))
                  (k (jd + 1) (st1\<lparr>total_downloaded := td\<rparr>)))))
              else emit (Progress (FetchError i)) (k jd st1))
           else emit (Progress (FetchStatus code i)) (k jd st1))"

text \<open>The body of the loop over \<^verbatim>\<open>results\<close> from line 259 on.\<close>

definition process_photo ::
  "world \<Rightarrow> nat \<Rightarrow> string \<Rightarrow> int \<Rightarrow> photo \<Rightarrow> int \<Rightarrow> state \<Rightarrow> (int \<Rightarrow> state \<Rightarrow> trace) \<Rightarrow> trace"
where
  "process_photo w ji kw total_images p jd st k =
     track w (photo_id p) (download_location p) st (\<lambda>tracked st1.
       case fallback tracked p of
         None \<Rightarrow> emit (Progress (NoUrlSkip (photo_id p))) (k jd st1)
       | Some url \<Rightarrow>
           if url = [] then emit (Progress (NoUrlSkip (photo_id p))) (k jd st1)
           else download w ji kw total_images (photo_id p) url jd st1 k)"

text \<open>Lines 251 to 327: the loop over \<^verbatim>\<open>results\<close>.\<close>

fun photos_loop ::
  "world \<Rightarrow> nat \<Rightarrow> string \<Rightarrow> int \<Rightarrow> int \<Rightarrow> photo list \<Rightarrow> int \<Rightarrow> state
    \<Rightarrow> (int \<Rightarrow> state \<Rightarrow> trace) \<Rightarrow> trace"
where
  "photos_loop w ji kw target total_images [] jd st k = k jd st"
| "photos_loop w ji kw target total_images (p # ps) jd st k =
     poll w st (\<lambda>b st1.
       if b then emit (Progress StopRequested) (k jd st1)
       else if jd \<ge> target then k jd st1
       else process_photo w ji kw total_images p jd st1
              (\<lambda>jd' st2. photos_loop w ji kw target total_images ps jd' st2 k))"

subsection \<open>The pages of one job (lines 125 to 346)\<close>

text \<open>
  Lines 330 to 346: what follows the loop over the results of one page. \<open>next\<close> is the
  next turn of the loop over the pages, \<open>k\<close> what follows that loop (\<^verbatim>\<open>break\<close>).
\<close>

definition after_photos ::
  "world \<Rightarrow> rat \<Rightarrow> string \<Rightarrow> int \<Rightarrow> int \<Rightarrow> int \<Rightarrow> (int \<Rightarrow> state \<Rightarrow> trace)
    \<Rightarrow> (int \<Rightarrow> state \<Rightarrow> trace) \<Rightarrow> int \<Rightarrow> state \<Rightarrow> trace"
where
  "after_photos w iv kw target pn page next k jd st =
     emit (PageValue page)
      (if jd \<ge> target then emit (Progress (JobDone kw target)) (k jd st)
       else if iv \<ge> 1 \<and> page < pn then
         interval_wait w (nat (int_of_float iv)) st (\<lambda>st1.
           poll w st1 (\<lambda>b st2. if b then k jd st2 else next jd st2))
       else next jd st)"

text \<open>
  Lines 239 to 327: what follows the retry loop. \<open>resp\<close> is the variable as the retry
  loop left it; reading it unbound, and a body that does not parse, raise. \<open>after\<close> is
  what follows the loop over the results.
\<close>

definition page_results ::
  "world \<Rightarrow> nat \<Rightarrow> string \<Rightarrow> int \<Rightarrow> int \<Rightarrow> int \<Rightarrow> state \<Rightarrow> (int \<Rightarrow> state \<Rightarrow> trace)
    \<Rightarrow> (int \<Rightarrow> state \<Rightarrow> trace) \<Rightarrow> trace"
where
  "page_results w ji kw target total_images jd st after k =
     poll w st (\<lambda>b st1.
       if b then k jd st1
       else
         case resp st1 of
           None \<Rightarrow> handler
         | Some r \<Rightarrow>
            (case results r of
               None \<Rightarrow> handler
             | Some rs \<Rightarrow>
                if rs = [] then emit (Progress (NoMoreResults kw)) (k jd st1)
                else photos_loop w ji kw target total_images rs jd st1 after))"

text \<open>Lines 125 to 346: the loop over the pages.\<close>

fun pages_loop ::
  "nat \<Rightarrow> world \<Rightarrow> config \<Rightarrow> int \<Rightarrow> rat \<Rightarrow> nat \<Rightarrow> string \<Rightarrow> int \<Rightarrow> int \<Rightarrow> int list \<Rightarrow> int
    \<Rightarrow> state \<Rightarrow> (int \<Rightarrow> state \<Rightarrow> trace) \<Rightarrow> trace"
where
  "pages_loop fuel w cfg total_images iv ji kw target pn [] jd st k = k jd st"
| "pages_loop fuel w cfg total_images iv ji kw target pn (page # later) jd st k =
     poll w st (\<lambda>b st1.
       if b then emit (Progress StopRequested) (k jd st1)
       else
         request_page fuel w cfg ji kw page pn st1 (\<lambda>st2.
           page_results w ji kw target total_images jd st2
             (after_photos w iv kw target pn page
                (\<lambda>jd' st3. pages_loop fuel w cfg total_images iv ji kw target pn later jd' st3 k)
                k)
             k))"

subsection \<open>The jobs (lines 101 to 354)\<close>

text \<open>Lines 351 to 354.\<close>

definition finish :: "world \<Rightarrow> state \<Rightarrow> trace" where
  "finish w st =
     poll w st (\<lambda>b st1. if \<not> b then Some [Progress AllDone, Finished] else Some [Finished])"

fun jobs_loop ::
  "nat \<Rightarrow> world \<Rightarrow> config \<Rightarrow> int \<Rightarrow> rat \<Rightarrow> job list \<Rightarrow> nat \<Rightarrow> state \<Rightarrow> trace"
where
  "jobs_loop fuel w cfg total_images iv [] ji st = finish w st"
| "jobs_loop fuel w cfg total_images iv (j # js) ji st =
     poll w st (\<lambda>b st1.
       if b then emit (Progress StopRequested) (finish w st1)
       else if count j \<le> 0 then jobs_loop fuel w cfg total_images iv js (ji + 1) st1
       else
         emit (Progress (JobStart ji (length (jobs cfg)) (keyword j) (count j)))
          (if pages_needed (count j) \<le> 0
           then jobs_loop fuel w cfg total_images iv js (ji + 1) st1
           else
             emit (PageMax (pages_needed (count j)))
            (emit (PageValue 0)
            (pages_loop fuel w cfg total_images iv ji (keyword j) (count j)
               (pages_needed (count j)) [1 .. pages_needed (count j)] 0 st1
               (\<lambda>jd st2.
                  poll w st2 (\<lambda>b2 st3.
                    if b2 then finish w st3
                    else jobs_loop fuel w cfg total_images iv js (ji + 1) st3))))))"

subsection \<open>\<^verbatim>\<open>run\<close> (lines 54 to 358)\<close>

definition init_state :: state where
  "init_state =
     \<lparr>polls = 0, request_count = 0, tracks = 0, fetches = 0, total_downloaded = 0,
      resp = None\<rparr>"

definition total_images :: "config \<Rightarrow> int" where
  "total_images cfg = sum_list (map count (jobs cfg))"

definition run :: "nat \<Rightarrow> world \<Rightarrow> config \<Rightarrow> trace" where
  "run fuel w cfg =
     (if jobs cfg = [] then Some [ErrorSig NoJobs, Finished]
      else if access_key cfg = [] \<and> env_key w = [] then Some [ErrorSig NoAccessKey, Finished]
      else
        emit Mkdir
         (if \<not> mkdir_ok w then handler
          else if total_images cfg \<le> 0 then Some [ErrorSig ZeroCount, Finished]
          else
            emit (ProgressMax (total_images cfg))
           (emit (ProgressValue 0)
           (emit (Progress (BudgetInfo (limit_per_hour cfg) (safe_limit (limit_per_hour cfg))
                     (interval_sec (safe_limit (limit_per_hour cfg)))))
             (jobs_loop fuel w cfg (total_images cfg)
                (interval_sec (safe_limit (limit_per_hour cfg))) (jobs cfg) 1 init_state)))))"

section \<open>Properties of traces\<close>

text \<open>A finished run emitted \<^verbatim>\<open>finished\<close> once, as its last event.\<close>

definition ends_once :: "trace \<Rightarrow> bool" where
  "ends_once t = (case t of None \<Rightarrow> True
     | Some tr \<Rightarrow> \<exists>body. tr = body @ [Finished] \<and> Finished \<notin> set body)"

text \<open>
  The resolution policy in the words of the specification: the \<^verbatim>\<open>url\<close> of the tracking
  answer when the call was made (\<open>Some reply\<close>) and answered 200 with a body that
  parses; otherwise the full-resolution URL; otherwise the regular one; otherwise none.
\<close>

definition spec_resolve :: "track_reply option \<Rightarrow> photo \<Rightarrow> string option" where
  "spec_resolve reply p =
     (case (case reply of
              Some (TrackResponse code (Some (Some u))) \<Rightarrow>
                if code = 200 \<and> u \<noteq> [] then Some u else None
            | _ \<Rightarrow> None) of
        Some u \<Rightarrow> Some u
      | None \<Rightarrow>
          if truthy (url_full p) then url_full p
          else if truthy (url_regular p) then url_regular p
          else None)"

definition is_saved :: "event \<Rightarrow> bool" where
  "is_saved e = (case e of Saved j a b f \<Rightarrow> True | _ \<Rightarrow> False)"

definition is_progress :: "event \<Rightarrow> bool" where
  "is_progress e = (case e of Progress m \<Rightarrow> True | _ \<Rightarrow> False)"

definition tracking_failed :: "track_reply \<Rightarrow> bool" where
  "tracking_failed r = (case r of TrackResponse code (Some u) \<Rightarrow> code \<noteq> 200 | _ \<Rightarrow> True)"

text \<open>
  The terminal outcomes of a search request in the words of the specification: the
  request fails, or it answers a status other than 200 that is not a rate limit with a
  wait to retry after (403 or 429 with auto retry on and a computed wait).
\<close>

definition is_search :: "event \<Rightarrow> bool" where
  "is_search e = (case e of Search j q \<Rightarrow> True | _ \<Rightarrow> False)"

definition terminal_reply :: "bool \<Rightarrow> search_reply \<Rightarrow> int \<Rightarrow> bool" where
  "terminal_reply auto reply now =
     (case reply of
        RequestFailed \<Rightarrow> True
      | Response r \<Rightarrow>
          if status_code r = 200 then False
          else if status_code r = 403 \<or> status_code r = 429 then
            \<not> auto \<or> (case wait_sec r now of WaitSec (Some ws) \<Rightarrow> False | _ \<Rightarrow> True)
          else True)"

text \<open>The events of an abort: the error report, then \<^verbatim>\<open>finished\<close>, and nothing else but
  the log line written before the report of a rate limit.\<close>

definition aborted :: "event list \<Rightarrow> bool" where
  "aborted post =
     (\<exists>e. post = [ErrorSig e, Finished]
        \<or> (\<exists>a b. post = [Progress (RateLimitDebug a b), ErrorSig e, Finished]))"

text \<open>\<open>aborts_ok w auto n tr\<close>: in \<open>tr\<close>, whose first search request is the \<open>n\<close>-th of the
  run, every search request with a terminal outcome is followed by an abort.\<close>

primrec aborts_ok :: "world \<Rightarrow> bool \<Rightarrow> nat \<Rightarrow> event list \<Rightarrow> bool" where
  "aborts_ok w auto n [] = True"
| "aborts_ok w auto n (e # tr) =
     (if is_search e
      then (\<not> terminal_reply auto (search_net w n) (clock w n) \<or> aborted tr)
           \<and> aborts_ok w auto (Suc n) tr
      else aborts_ok w auto n tr)"

definition abort_ok :: "world \<Rightarrow> bool \<Rightarrow> nat \<Rightarrow> trace \<Rightarrow> bool" where
  "abort_ok w auto n t = (case t of None \<Rightarrow> True | Some tr \<Rightarrow> aborts_ok w auto n tr)"


text \<open>
  The counters at a point of a run, read off the events up to it: \<^verbatim>\<open>job_downloaded\<close>
  of job \<open>j\<close> is the value it had at the last save for that job (0 before the first),
  \<^verbatim>\<open>total_downloaded\<close> the value it had at the last save.
\<close>

type_synonym counters = "(nat \<Rightarrow> int) \<times> int"

definition count_event :: "counters \<Rightarrow> event \<Rightarrow> counters" where
  "count_event c e = (case e of Saved j jd td f \<Rightarrow> ((fst c)(j := jd), td) | _ \<Rightarrow> c)"

definition counters_after :: "event list \<Rightarrow> counters" where
  "counters_after p = foldl count_event (\<lambda>j. 0, 0) p"

definition per_job_downloaded :: "event list \<Rightarrow> nat \<Rightarrow> int" where
  "per_job_downloaded p j = fst (counters_after p) j"

definition total_downloaded_at :: "event list \<Rightarrow> int" where
  "total_downloaded_at p = snd (counters_after p)"

text \<open>The invariant of the counters, \<open>goods\<close> at every point of a trace.\<close>

definition good :: "config \<Rightarrow> counters \<Rightarrow> bool" where
  "good cfg c =
     ((\<forall>i<length (jobs cfg). fst c (Suc i) \<le> count (jobs cfg ! i))
      \<and> snd c = (\<Sum>i<length (jobs cfg). fst c (Suc i)))"

primrec goods :: "config \<Rightarrow> counters \<Rightarrow> event list \<Rightarrow> bool" where
  "goods cfg c [] = good cfg c"
| "goods cfg c (e # tr) = (good cfg c \<and> goods cfg (count_event c e) tr)"

definition gd :: "config \<Rightarrow> (nat \<Rightarrow> int) \<Rightarrow> int \<Rightarrow> trace \<Rightarrow> bool" where
  "gd cfg pj td t = (case t of None \<Rightarrow> True | Some tr \<Rightarrow> goods cfg (pj, td) tr)"

definition job_inv :: "config \<Rightarrow> (nat \<Rightarrow> int) \<Rightarrow> nat \<Rightarrow> int \<Rightarrow> int \<Rightarrow> bool" where
  "job_inv cfg pj ji jd td =
     (good cfg (pj, td) \<and> pj ji = jd \<and> (\<forall>i>ji. pj i = 0) \<and> 1 \<le> ji \<and> ji \<le> length (jobs cfg))"

text \<open>The number written by a string of decimal digits.\<close>

definition decimal_value :: "string \<Rightarrow> int" where
  "decimal_value s = foldl (\<lambda>a c. 10 * a + digit_value c) 0 s"

text \<open>
  The events that can follow a read of the stop flag that found it set: progress texts
  other than the one of completion, the page bar, further reads that find it set, and
  \<^verbatim>\<open>finished\<close>. No network call, file, sleep or error signal is among them.
\<close>

definition quiet :: "event \<Rightarrow> bool" where
  "quiet e = (case e of Progress m \<Rightarrow> m \<noteq> AllDone | PageValue v \<Rightarrow> True | Poll b \<Rightarrow> b
              | Finished \<Rightarrow> True | _ \<Rightarrow> False)"

definition quiet_trace :: "trace \<Rightarrow> bool" where
  "quiet_trace t = (case t of None \<Rightarrow> True | Some tr \<Rightarrow> list_all quiet tr)"

text \<open>\<open>stops_ok tr\<close>: in \<open>tr\<close> only quiet events follow a read that found the flag set.
  \<open>sleeps_ok p tr\<close>: in \<open>tr\<close>, which follows the event \<open>p\<close>, every sleep comes right after a
  read that found the flag unset.\<close>

primrec stops_ok :: "event list \<Rightarrow> bool" where
  "stops_ok [] = True"
| "stops_ok (e # tr) = ((e \<noteq> Poll True \<or> list_all quiet tr) \<and> stops_ok tr)"

definition stop_ok :: "trace \<Rightarrow> bool" where
  "stop_ok t = (case t of None \<Rightarrow> True | Some tr \<Rightarrow> stops_ok tr)"

primrec sleeps_ok :: "event \<Rightarrow> event list \<Rightarrow> bool" where
  "sleeps_ok p [] = True"
| "sleeps_ok p (e # tr) = ((e \<noteq> Sleep \<or> p = Poll False) \<and> sleeps_ok e tr)"

definition sleep_ok :: "trace \<Rightarrow> bool" where
  "sleep_ok t = (case t of None \<Rightarrow> True | Some tr \<Rightarrow> \<forall>p. sleeps_ok p tr)"

section \<open>Example runs\<close>

text \<open>Two jobs of one photo each; the tracking call answers 500, the image fetch 200.\<close>

definition demo_photo :: photo where
  "demo_photo = \<lparr>pid = Some ''a'', download_location = Some ''t'', url_full = Some ''f'',
     url_regular = None\<rparr>"

definition demo_page :: search_resp where
  "demo_page = \<lparr>status_code = 200, hdr_remaining = None, hdr_reset = None, body_text = [],
     results = Some [demo_photo]\<rparr>"

definition demo_world :: world where
  "demo_world = \<lparr>env_key = [], mkdir_ok = True, stop_after = None, clock = (\<lambda>n. 1000),
     search_net = (\<lambda>n. Response demo_page),
     track_net = (\<lambda>n. TrackResponse 500 None),
     fetch_net = (\<lambda>n. FetchResponse 200 True)\<rparr>"

definition demo_config :: config where
  "demo_config = \<lparr>access_key = ''k'',
     jobs = [\<lparr>keyword = ''cat'', count = 1\<rparr>, \<lparr>keyword = ''dog'', count = 1\<rparr>],
     limit_per_hour = 50, orientation = [], color = [], order_by = ''relevant'',
     content_filter = ''low'', auto_retry = True\<rparr>"

definition demo_params :: "string \<Rightarrow> params" where
  "demo_params kw = \<lparr>p_query = kw, p_page = 1, p_per_page = 30, p_order_by = ''relevant'',
     p_content_filter = ''low'', p_orientation = None, p_color = None\<rparr>"

definition demo_trace :: "event list" where
  "demo_trace =
  [Mkdir, ProgressMax 2, ProgressValue 0, Progress (BudgetInfo 50 45 80),
   Poll False, Progress (JobStart 1 2 ''cat'' 1), PageMax 1, PageValue 0,
   Poll False, Poll False, Progress (Searching 1 2 1 1 1),
   Search 1 (demo_params ''cat''),
   Poll False, Poll False, Track ''t'',
   Progress (TrackHttpFailed ''a'' 500), Fetch ''f'',
   Saved 1 1 1 ''cat_a.jpg'', ProgressValue 1,
   Progress (SavedFile 1 2 ''cat_a.jpg''), PageValue 1,
   Progress (JobDone ''cat'' 1), Poll False, Poll False,
   Progress (JobStart 2 2 ''dog'' 1), PageMax 1, PageValue 0, Poll False,
   Poll False, Progress (Searching 2 2 1 1 2),
   Search 2 (demo_params ''dog''),
   Poll False, Poll False, Track ''t'',
   Progress (TrackHttpFailed ''a'' 500), Fetch ''f'',
   Saved 2 1 2 ''dog_a.jpg'', ProgressValue 2,
   Progress (SavedFile 2 2 ''dog_a.jpg''), PageValue 1,
   Progress (JobDone ''dog'' 1), Poll False, Poll False, Progress AllDone,
   Finished]"

text \<open>The same world, except that every image fetch answers 404.\<close>

definition failing_world :: world where
  "failing_world = demo_world\<lparr>fetch_net := (\<lambda>n. FetchResponse 404 True)\<rparr>"








text \<open>Every search answers 429 with \<^verbatim>\<open>X-Ratelimit-Remaining: 0\<close>, the reset header
  holding the single character U+00B2 (superscript two), and the marker in the body.\<close>

definition superscript_page :: search_resp where
  "superscript_page = \<lparr>status_code = 429, hdr_remaining = Some ''0'',
     hdr_reset = Some [CHR 0xB2], body_text = ''Rate Limit Exceeded'', results = None\<rparr>"

definition superscript_world :: world where
  "superscript_world = demo_world\<lparr>search_net := (\<lambda>n. Response superscript_page)\<rparr>"

definition superscript_trace :: "event list" where
  "superscript_trace =
  [Mkdir, ProgressMax 2, ProgressValue 0, Progress (BudgetInfo 50 45 80),
   Poll False, Progress (JobStart 1 2 ''cat'' 1), PageMax 1, PageValue 0,
   Poll False, Poll False, Progress (Searching 1 2 1 1 1),
   Search 1 (demo_params ''cat''),
   Progress (RateLimitDebug (Some ''0'') (Some [CHR 0xB2])),
   ErrorSig Unexpected, Finished]"

section \<open>Basic facts\<close>

lemma emits_Nil [simp]: "emits [] t = t"
  by (cases t) (simp_all add: emits_def)

lemma emits_Cons [simp]: "emits (e # es) t = emit e (emits es t)"
  by (cases t) (simp_all add: emits_def emit_def)

lemma emits_append: "emits (a @ b) t = emits a (emits b t)"
  by (cases t) (simp_all add: emits_def)

lemma emits_snoc: "emits a (emit e t) = emits (a @ [e]) t"
  by (simp add: emits_append)

lemma poll_False [simp]: "\<not> stop_flag w st \<Longrightarrow> poll w st k = emit (Poll False) (k False (polled st))"
  by (simp add: poll_def)

lemma poll_True [simp]: "stop_flag w st \<Longrightarrow> poll w st k = emit (Poll True) (k True (polled st))"
  by (simp add: poll_def)

lemma polled_simps [simp]:
  "request_count (polled st) = request_count st"
  "tracks (polled st) = tracks st"
  "fetches (polled st) = fetches st"
  "total_downloaded (polled st) = total_downloaded st"
  "resp (polled st) = resp st"
  "polls (polled st) = Suc (polls st)"
  by (simp_all add: polled_def)

lemma demo_run: "run 1 demo_world demo_config = Some demo_trace"
  by code_simp

section \<open>The finished signal\<close>

lemma ends_once_None [simp]: "ends_once None"
  by (simp add: ends_once_def)

lemma ends_once_Nil [simp]: "\<not> ends_once (Some [])"
  by (simp add: ends_once_def)

lemma ends_once_Cons [simp]:
  "ends_once (Some (e # tr)) = (if e = Finished then tr = [] else ends_once (Some tr))"
proof (cases "e = Finished")
  case True
  have "(\<exists>body. Finished # tr = body @ [Finished] \<and> Finished \<notin> set body) = (tr = [])"
    by (auto simp: Cons_eq_append_conv)
  with True show ?thesis by (simp add: ends_once_def)
next
  case False
  have "(\<exists>body. e # tr = body @ [Finished] \<and> Finished \<notin> set body)
      = (\<exists>body. tr = body @ [Finished] \<and> Finished \<notin> set body)"
    using False by (auto simp: Cons_eq_append_conv)
  with False show ?thesis by (simp add: ends_once_def)
qed

lemma ends_once_emit [simp]: "e \<noteq> Finished \<Longrightarrow> ends_once (emit e t) = ends_once t"
  by (cases t) (simp_all add: emit_def)

lemma ends_once_handler [simp]: "ends_once handler"
  by (simp add: handler_def)

lemma ends_once_poll: "(\<And>b st'. ends_once (k b st')) \<Longrightarrow> ends_once (poll w st k)"
  by (simp add: poll_def)

lemma ends_once_backoff_wait:
  "(\<And>st'. ends_once (k st')) \<Longrightarrow> ends_once (backoff_wait w n st k)"
  by (induction n arbitrary: st) (auto intro!: ends_once_poll)

lemma ends_once_interval_wait:
  "(\<And>st'. ends_once (k st')) \<Longrightarrow> ends_once (interval_wait w n st k)"
  by (induction n arbitrary: st) (auto intro!: ends_once_poll)

lemma ends_once_handle_reply:
  "(\<And>st'. ends_once (again st')) \<Longrightarrow> (\<And>st'. ends_once (k st'))
   \<Longrightarrow> ends_once (handle_reply w cfg st reply again k)"
  by (auto simp: handle_reply_def split: search_reply.splits wait.splits option.splits
           intro!: ends_once_backoff_wait)

lemma ends_once_request_page:
  "(\<And>st'. ends_once (k st')) \<Longrightarrow> ends_once (request_page fuel w cfg ji kw page pn st k)"
  by (induction fuel arbitrary: st)
     (auto intro!: ends_once_poll ends_once_handle_reply)

lemma ends_once_emits [simp]: "Finished \<notin> set es \<Longrightarrow> ends_once (emits es t) = ends_once t"
  by (induction es) (auto simp: emits_def ends_once_def split: option.splits
        simp: Cons_eq_append_conv)

lemma track_call_no_Finished: "Finished \<notin> set (snd (track_call i r))"
  by (auto simp: track_call_def split: track_reply.splits option.splits)

lemma ends_once_track:
  "(\<And>u st'. ends_once (k u st')) \<Longrightarrow> ends_once (track w i loc st k)"
  by (auto simp: track_def track_call_no_Finished split: option.splits)

lemma ends_once_download:
  "(\<And>jd' st'. ends_once (k jd' st')) \<Longrightarrow> ends_once (download w ji kw ti i url jd st k)"
  by (auto simp: download_def Let_def split: fetch_reply.splits)

lemma ends_once_process_photo:
  "(\<And>jd' st'. ends_once (k jd' st')) \<Longrightarrow> ends_once (process_photo w ji kw ti p jd st k)"
  unfolding process_photo_def
  by (auto split: option.splits intro!: ends_once_track ends_once_download)

lemma ends_once_photos_loop:
  "(\<And>jd' st'. ends_once (k jd' st')) \<Longrightarrow> ends_once (photos_loop w ji kw target ti ps jd st k)"
  by (induction ps arbitrary: jd st)
     (auto intro!: ends_once_poll ends_once_process_photo)

lemma ends_once_after_photos:
  "(\<And>jd' st'. ends_once (next jd' st')) \<Longrightarrow> (\<And>jd' st'. ends_once (k jd' st'))
   \<Longrightarrow> ends_once (after_photos w iv kw target pn page next k jd st)"
  by (auto simp: after_photos_def intro!: ends_once_interval_wait ends_once_poll)

lemma ends_once_page_results:
  "(\<And>jd' st'. ends_once (after jd' st')) \<Longrightarrow> (\<And>jd' st'. ends_once (k jd' st'))
   \<Longrightarrow> ends_once (page_results w ji kw target ti jd st after k)"
  by (auto simp: page_results_def split: option.splits
           intro!: ends_once_poll ends_once_photos_loop)

lemma ends_once_pages_loop:
  "(\<And>jd' st'. ends_once (k jd' st')) \<Longrightarrow>
   ends_once (pages_loop fuel w cfg ti iv ji kw target pn pages jd st k)"
  by (induction pages arbitrary: jd st)
     (auto intro!: ends_once_poll ends_once_request_page ends_once_page_results
                   ends_once_after_photos)

lemma ends_once_finish: "ends_once (finish w st)"
  by (auto simp: finish_def intro!: ends_once_poll)

lemma ends_once_jobs_loop: "ends_once (jobs_loop fuel w cfg ti iv js ji st)"
  by (induction js arbitrary: ji st)
     (auto intro!: ends_once_poll ends_once_pages_loop ends_once_finish)

lemma ends_once_run: "ends_once (run fuel w cfg)"
  by (auto simp: run_def intro!: ends_once_jobs_loop)

text \<open>
  C10. Every run that returns has emitted \<^verbatim>\<open>finished\<close> exactly once, as its last
  event; so every \<^verbatim>\<open>error\<close> signal of the run comes before it. This covers each way
  of ending: the configuration errors, a failed or refused search request, a stop
  request seen during a wait, an exception caught by the outermost handler, and normal
  completion.
\<close>

theorem finished_exactly_once_and_last:
  "run fuel w cfg = Some tr \<Longrightarrow> \<exists>body. tr = body @ [Finished] \<and> Finished \<notin> set body"
  using ends_once_run [of fuel w cfg] by (simp add: ends_once_def)

theorem finished_exactly_once_and_last_witness:
  "run 1 demo_world demo_config = Some demo_trace
   \<and> (\<exists>body. demo_trace = body @ [Finished] \<and> Finished \<notin> set body)"
  using finished_exactly_once_and_last [OF demo_run] demo_run by simp

section \<open>Terminal outcomes of a search request\<close>

lemma abort_ok_None [simp]: "abort_ok w auto n None"
  by (simp add: abort_ok_def)

lemma abort_ok_emit [simp]:
  "\<not> is_search e \<Longrightarrow> abort_ok w auto n (emit e t) = abort_ok w auto n t"
  by (cases t) (simp_all add: abort_ok_def emit_def)

lemma abort_ok_emits [simp]:
  "\<not> list_ex is_search es \<Longrightarrow> abort_ok w auto n (emits es t) = abort_ok w auto n t"
  by (induction es) simp_all

lemma abort_ok_Some [simp]:
  "\<not> list_ex is_search tr \<Longrightarrow> abort_ok w auto n (Some tr)"
  by (induction tr) (simp_all add: abort_ok_def)

lemma abort_ok_search:
  "abort_ok w auto n (emit (Search j q) t) =
     (case t of None \<Rightarrow> True
      | Some tr \<Rightarrow> (\<not> terminal_reply auto (search_net w n) (clock w n) \<or> aborted tr)
                  \<and> aborts_ok w auto (Suc n) tr)"
  by (cases t) (simp_all add: abort_ok_def emit_def is_search_def)

lemma abort_ok_handler [simp]: "abort_ok w auto n handler"
  by (simp add: handler_def is_search_def)




lemma aborted_simps [simp]:
  "aborted [ErrorSig e, Finished]"
  "aborted [Progress (RateLimitDebug a b), ErrorSig e, Finished]"
  by (simp_all add: aborted_def)





















section \<open>Resolving and fetching one photo\<close>

lemma fallback_cases:
  "(case fallback tracked p of None \<Rightarrow> a | Some url \<Rightarrow> if url = [] then a else b url)
   = (case (if truthy tracked then tracked
            else if truthy (url_full p) then url_full p
            else if truthy (url_regular p) then url_regular p else None) of
        None \<Rightarrow> a | Some url \<Rightarrow> b url)"
  by (auto simp: fallback_def py_or_def truthy_def split: option.splits)

lemma process_photo_resolved:
  "process_photo w ji kw ti p jd st k =
     (if truthy (download_location p) then
        emit (Track (the (download_location p)))
          (emits (snd (track_call (photo_id p) (track_net w (tracks st))))
             (case spec_resolve (Some (track_net w (tracks st))) p of
                None \<Rightarrow> emit (Progress (NoUrlSkip (photo_id p)))
                          (k jd (st\<lparr>tracks := tracks st + 1\<rparr>))
              | Some url \<Rightarrow> download w ji kw ti (photo_id p) url jd
                             (st\<lparr>tracks := tracks st + 1\<rparr>) k))
      else
        (case spec_resolve None p of
           None \<Rightarrow> emit (Progress (NoUrlSkip (photo_id p))) (k jd st)
         | Some url \<Rightarrow> download w ji kw ti (photo_id p) url jd st k))"
  unfolding process_photo_def track_def fallback_cases
  by (auto simp: spec_resolve_def track_call_def truthy_def
           split: option.splits track_reply.splits)

text \<open>
  C6. One photo is resolved in this order. If it carries a tracking URL, that URL is
  called exactly once, and the \<^verbatim>\<open>url\<close> of the answer is used only when the answer is
  200 with a body that parses; on every other answer, and without a tracking URL, the
  full-resolution URL is used, and the regular one if that is absent. With none of
  them the photo is skipped: the skip is logged, nothing is fetched or written, and the
  loop goes on with the same count (\<open>k jd\<close>).
\<close>

theorem resolution_order:
  "process_photo w ji kw ti p jd st k =
     (if truthy (download_location p) then
        emit (Track (the (download_location p)))
          (emits (snd (track_call (photo_id p) (track_net w (tracks st))))
             (case spec_resolve (Some (track_net w (tracks st))) p of
                None \<Rightarrow> emit (Progress (NoUrlSkip (photo_id p)))
                          (k jd (st\<lparr>tracks := tracks st + 1\<rparr>))
              | Some url \<Rightarrow> download w ji kw ti (photo_id p) url jd
                             (st\<lparr>tracks := tracks st + 1\<rparr>) k))
      else
        (case spec_resolve None p of
           None \<Rightarrow> emit (Progress (NoUrlSkip (photo_id p))) (k jd st)
         | Some url \<Rightarrow> download w ji kw ti (photo_id p) url jd st k))"
  by (rule process_photo_resolved)

lemma track_call_progress: "list_all is_progress (snd (track_call i r))"
  by (auto simp: track_call_def is_progress_def split: track_reply.splits option.splits)

lemma photo_id_update [simp]: "photo_id (p\<lparr>download_location := x\<rparr>) = photo_id p"
  by (simp add: photo_id_def)

lemma tracking_failed_call:
  "tracking_failed r \<Longrightarrow> \<exists>m. track_call i r = (None, [Progress m])"
  by (auto simp: tracking_failed_def track_call_def split: track_reply.splits option.splits)

lemma download_failed:
  "fetch_net w (fetches st) \<noteq> FetchResponse 200 True \<Longrightarrow>
   \<exists>m. download w ji kw ti i url jd st k
      = emit (Fetch url) (emit (Progress m) (k jd (st\<lparr>fetches := fetches st + 1\<rparr>)))"
  by (auto simp: download_def Let_def split: fetch_reply.splits)

lemma process_photo_skipped:
  assumes "spec_resolve (if truthy (download_location p)
                         then Some (track_net w (tracks st)) else None) p = None
           \<or> fetch_net w (fetches st) \<noteq> FetchResponse 200 True"
  shows "\<exists>evs st'. process_photo w ji kw ti p jd st k = emits evs (k jd st')
           \<and> total_downloaded st' = total_downloaded st
           \<and> (\<exists>m. Progress m \<in> set evs) \<and> \<not> list_ex is_saved evs"
proof -
  define log where "log = snd (track_call (photo_id p) (track_net w (tracks st)))"
  define st1 where "st1 = (if truthy (download_location p) then st\<lparr>tracks := tracks st + 1\<rparr> else st)"
  define pre where "pre = (if truthy (download_location p)
                           then Track (the (download_location p)) # log else [])"
  define r where "r = spec_resolve (if truthy (download_location p)
                          then Some (track_net w (tracks st)) else None) p"
  have "\<not> list_ex is_saved log"
    using track_call_progress [of "photo_id p" "track_net w (tracks st)"]
    by (auto simp: log_def list_all_iff list_ex_iff is_progress_def is_saved_def
             split: event.splits)
  then have pre: "\<not> list_ex is_saved pre"
    by (simp add: pre_def is_saved_def)
  have st1: "total_downloaded st1 = total_downloaded st" "fetches st1 = fetches st"
    by (simp_all add: st1_def)
  have eq: "process_photo w ji kw ti p jd st k =
      emits pre (case r of
          None \<Rightarrow> emit (Progress (NoUrlSkip (photo_id p))) (k jd st1)
        | Some url \<Rightarrow> download w ji kw ti (photo_id p) url jd st1 k)"
    unfolding pre_def r_def st1_def log_def
    by (cases "truthy (download_location p)") (simp_all add: process_photo_resolved)
  show ?thesis
  proof (cases r)
    case None
    with eq have "process_photo w ji kw ti p jd st k
        = emits (pre @ [Progress (NoUrlSkip (photo_id p))]) (k jd st1)"
      by (simp add: emits_snoc)
    moreover have "\<not> list_ex is_saved (pre @ [Progress (NoUrlSkip (photo_id p))])"
      using pre by (simp add: is_saved_def)
    ultimately show ?thesis
      using st1 by (intro exI [of _ "pre @ [Progress (NoUrlSkip (photo_id p))]"] exI [of _ st1]) auto
  next
    case (Some url)
    with assms have f: "fetch_net w (fetches st1) \<noteq> FetchResponse 200 True"
      by (simp add: r_def st1(2))
    from download_failed [OF f] obtain m where
      d: "download w ji kw ti (photo_id p) url jd st1 k
          = emit (Fetch url) (emit (Progress m) (k jd (st1\<lparr>fetches := fetches st1 + 1\<rparr>)))"
      by blast
    have "process_photo w ji kw ti p jd st k
        = emits (pre @ [Fetch url, Progress m]) (k jd (st1\<lparr>fetches := fetches st1 + 1\<rparr>))"
      using Some d eq by (simp add: emits_append)
    moreover have "\<not> list_ex is_saved (pre @ [Fetch url, Progress m])"
      using pre by (simp add: is_saved_def)
    ultimately show ?thesis
      using st1 by (intro exI [of _ "pre @ [Fetch url, Progress m]"]
                exI [of _ "st1\<lparr>fetches := fetches st1 + 1\<rparr>"]) auto
  qed
qed

text \<open>
  C7, as amended. While no stop is requested and the job's target is not reached, a
  photo without any download URL, or whose image fetch raises, answers another status
  than 200 or cannot be written, is skipped: the loop over the results goes on with the
  next photo with \<^verbatim>\<open>job_downloaded\<close> and \<^verbatim>\<open>total_downloaded\<close> unchanged, something was
  logged and nothing was saved. A failed tracking call is logged as well, but the
  photo is not skipped: it is then processed as a photo without a tracking URL.
\<close>

theorem item_failures_skip_and_continue:
  "(\<not> stop_flag w st \<and> jd < target
     \<and> (spec_resolve (if truthy (download_location p)
                       then Some (track_net w (tracks st)) else None) p = None
        \<or> fetch_net w (fetches st) \<noteq> FetchResponse 200 True)
    \<longrightarrow> (\<exists>evs st'.
          photos_loop w ji kw target ti (p # ps) jd st k
            = emits evs (photos_loop w ji kw target ti ps jd st' k)
          \<and> total_downloaded st' = total_downloaded st
          \<and> (\<exists>m. Progress m \<in> set evs) \<and> \<not> list_ex is_saved evs))
   \<and> (truthy (download_location p) \<and> tracking_failed (track_net w (tracks st))
    \<longrightarrow> (\<exists>m. process_photo w ji kw ti p jd st k
          = emit (Track (the (download_location p))) (emit (Progress m)
              (process_photo w ji kw ti (p\<lparr>download_location := None\<rparr>) jd
                 (st\<lparr>tracks := tracks st + 1\<rparr>) k))))"
proof (intro conjI impI)
  assume a: "\<not> stop_flag w st \<and> jd < target
     \<and> (spec_resolve (if truthy (download_location p)
                       then Some (track_net w (tracks st)) else None) p = None
        \<or> fetch_net w (fetches st) \<noteq> FetchResponse 200 True)"
  let ?k = "\<lambda>jd' st2. photos_loop w ji kw target ti ps jd' st2 k"
  from a have "spec_resolve (if truthy (download_location p)
                       then Some (track_net w (tracks (polled st))) else None) p = None
        \<or> fetch_net w (fetches (polled st)) \<noteq> FetchResponse 200 True"
    by (cases "truthy (download_location p)") auto
  from process_photo_skipped [OF this, of ji kw ti jd ?k]
  obtain evs st' where
    e: "process_photo w ji kw ti p jd (polled st) ?k = emits evs (?k jd st')"
       "total_downloaded st' = total_downloaded st"
       "\<exists>m. Progress m \<in> set evs" "\<not> list_ex is_saved evs"
    by auto
  from a e(1) have "photos_loop w ji kw target ti (p # ps) jd st k
      = emits (Poll False # evs) (photos_loop w ji kw target ti ps jd st' k)"
    by simp
  moreover have "\<not> list_ex is_saved (Poll False # evs)"
    using e(4) by (simp add: is_saved_def)
  ultimately show "\<exists>evs st'.
          photos_loop w ji kw target ti (p # ps) jd st k
            = emits evs (photos_loop w ji kw target ti ps jd st' k)
          \<and> total_downloaded st' = total_downloaded st
          \<and> (\<exists>m. Progress m \<in> set evs) \<and> \<not> list_ex is_saved evs"
    using e(2,3) by (intro exI [of _ "Poll False # evs"] exI [of _ st']) auto
next
  assume a: "truthy (download_location p) \<and> tracking_failed (track_net w (tracks st))"
  then obtain m where m: "track_call (photo_id p) (track_net w (tracks st)) = (None, [Progress m])"
    using tracking_failed_call by blast
  from a obtain loc where loc: "download_location p = Some loc" "loc \<noteq> []"
    by (auto simp: truthy_def split: option.splits)
  have "process_photo w ji kw ti p jd st k
          = emit (Track (the (download_location p))) (emit (Progress m)
              (process_photo w ji kw ti (p\<lparr>download_location := None\<rparr>) jd
                 (st\<lparr>tracks := tracks st + 1\<rparr>) k))"
    by (simp add: process_photo_def track_def m loc fallback_def photo_id_update truthy_def
             cong: option.case_cong if_cong)
  then show "\<exists>m. process_photo w ji kw ti p jd st k
          = emit (Track (the (download_location p))) (emit (Progress m)
              (process_photo w ji kw ti (p\<lparr>download_location := None\<rparr>) jd
                 (st\<lparr>tracks := tracks st + 1\<rparr>) k))"
    by blast
qed

theorem item_failures_skip_and_continue_witness:
  "(\<not> stop_flag failing_world init_state \<and> (0::int) < 1
     \<and> (spec_resolve (if truthy (download_location demo_photo)
                       then Some (track_net failing_world (tracks init_state)) else None)
           demo_photo = None
        \<or> fetch_net failing_world (fetches init_state) \<noteq> FetchResponse 200 True))
   \<and> (\<exists>evs st'.
          photos_loop failing_world 1 ''cat'' 1 2 [demo_photo] 0 init_state (\<lambda>jd st. Some [])
            = emits evs (photos_loop failing_world 1 ''cat'' 1 2 [] 0 st' (\<lambda>jd st. Some []))
          \<and> total_downloaded st' = total_downloaded init_state
          \<and> (\<exists>m. Progress m \<in> set evs) \<and> \<not> list_ex is_saved evs)
   \<and> (truthy (download_location demo_photo)
       \<and> tracking_failed (track_net failing_world (tracks init_state)))
   \<and> (\<exists>m. process_photo failing_world 1 ''cat'' 2 demo_photo 0 init_state (\<lambda>jd st. Some [])
          = emit (Track (the (download_location demo_photo))) (emit (Progress m)
              (process_photo failing_world 1 ''cat'' 2 (demo_photo\<lparr>download_location := None\<rparr>) 0
                 (init_state\<lparr>tracks := tracks init_state + 1\<rparr>) (\<lambda>jd st. Some []))))"
  using item_failures_skip_and_continue
          [of failing_world init_state 0 1 demo_photo 1 "''cat''" 2 "[]" "\<lambda>jd st. Some []"]
  by (simp add: failing_world_def demo_world_def demo_photo_def init_state_def stop_flag_def
        truthy_def tracking_failed_def)

text \<open>
  C7 as stated fails for a failed tracking call: in the example run the tracking call
  of the first photo answers 500 and is logged, and the photo is fetched from its
  full-resolution URL and saved, which makes both counters 1.
\<close>

theorem tracking_failure_photo_saved_counterexample:
  "tracking_failed (track_net demo_world 0)
   \<and> run 1 demo_world demo_config = Some demo_trace
   \<and> take 4 (drop 14 demo_trace)
       = [Track ''t'', Progress (TrackHttpFailed ''a'' 500), Fetch ''f'',
          Saved 1 1 1 ''cat_a.jpg'']"
  using demo_run by (simp add: demo_world_def tracking_failed_def demo_trace_def)
section \<open>Stop requests\<close>

lemma stop_flag_polled [simp]: "stop_flag w st \<Longrightarrow> stop_flag w (polled st)"
  by (auto simp: stop_flag_def polled_def split: option.splits)

lemma stop_flag_update [simp]:
  "stop_flag w (st\<lparr>request_count := a\<rparr>) = stop_flag w st"
  "stop_flag w (st\<lparr>tracks := b\<rparr>) = stop_flag w st"
  "stop_flag w (st\<lparr>fetches := c\<rparr>) = stop_flag w st"
  "stop_flag w (st\<lparr>total_downloaded := d\<rparr>) = stop_flag w st"
  "stop_flag w (st\<lparr>resp := e\<rparr>) = stop_flag w st"
  by (simp_all add: stop_flag_def cong: option.case_cong)

lemma quiet_trace_None [simp]: "quiet_trace None"
  by (simp add: quiet_trace_def)

lemma quiet_trace_Some [simp]: "quiet_trace (Some tr) = list_all quiet tr"
  by (simp add: quiet_trace_def)

lemma quiet_trace_emit [simp]: "quiet_trace (emit e t) = (t = None \<or> quiet e \<and> quiet_trace t)"
  by (cases t) (simp_all add: emit_def)

lemma quiet_simps [simp]:
  "quiet (Poll b) = b" "quiet Finished" "quiet (PageValue v)"
  "quiet (Progress m) = (m \<noteq> AllDone)"
  "\<not> quiet (ErrorSig f)" "\<not> quiet (ProgressMax v)" "\<not> quiet (ProgressValue v)"
  "\<not> quiet (PageMax v)" "\<not> quiet Mkdir" "\<not> quiet (Search j q)" "\<not> quiet (Track u)"
  "\<not> quiet (Fetch u)" "\<not> quiet (Saved j a c f')" "\<not> quiet Sleep"
  by (simp_all add: quiet_def)

lemma quiet_finish: "stop_flag w st \<Longrightarrow> quiet_trace (finish w st)"
  by (simp add: finish_def)



lemma quiet_backoff_wait:
  "stop_flag w st \<Longrightarrow> (\<And>st'. stop_flag w st' \<Longrightarrow> quiet_trace (k st'))
   \<Longrightarrow> quiet_trace (backoff_wait w n st k)"
  by (cases n) simp_all

lemma quiet_request_page:
  "stop_flag w st \<Longrightarrow> (\<And>st'. stop_flag w st' \<Longrightarrow> quiet_trace (k st'))
   \<Longrightarrow> quiet_trace (request_page fuel w cfg ji kw page pn st k)"
  by (cases fuel) simp_all

lemma quiet_photos_loop:
  "stop_flag w st \<Longrightarrow> (\<And>jd' st'. stop_flag w st' \<Longrightarrow> quiet_trace (k jd' st'))
   \<Longrightarrow> quiet_trace (photos_loop w ji kw target ti ps jd st k)"
  by (cases ps) simp_all


lemma quiet_jobs_loop:
  "stop_flag w st \<Longrightarrow> quiet_trace (jobs_loop fuel w cfg ti iv js ji st)"
  by (cases js) (simp_all add: quiet_finish)



lemma stop_ok_None [simp]: "stop_ok None"
  by (simp add: stop_ok_def)

lemma quiet_stops_ok: "list_all quiet tr \<Longrightarrow> stops_ok tr"
  by (induction tr) simp_all

lemma quiet_stop_ok: "quiet_trace t \<Longrightarrow> stop_ok t"
  by (cases t) (simp_all add: stop_ok_def quiet_stops_ok)

lemma stop_ok_emit [simp]: "e \<noteq> Poll True \<Longrightarrow> stop_ok (emit e t) = stop_ok t"
  by (cases t) (simp_all add: stop_ok_def emit_def)

lemma stop_ok_emits [simp]: "Poll True \<notin> set es \<Longrightarrow> stop_ok (emits es t) = stop_ok t"
  by (induction es) auto


lemma stop_ok_Some [simp]: "Poll True \<notin> set tr \<Longrightarrow> stop_ok (Some tr)"
  by (induction tr) (auto simp: stop_ok_def)

lemma stop_ok_handler [simp]: "stop_ok handler"
  by (simp add: handler_def)

















lemma sleep_ok_None [simp]: "sleep_ok None"
  by (simp add: sleep_ok_def)




lemma sleep_ok_Some: "Sleep \<notin> set tr \<Longrightarrow> sleep_ok (Some tr)"
proof -
  have "Sleep \<notin> set tr \<Longrightarrow> sleeps_ok p tr" for p
    by (induction tr arbitrary: p) auto
  then show "Sleep \<notin> set tr \<Longrightarrow> sleep_ok (Some tr)"
    by (simp add: sleep_ok_def)
qed

lemma sleep_ok_handler [simp]: "sleep_ok handler"
  by (simp add: handler_def sleep_ok_Some)


























section \<open>The counters\<close>

lemma gd_None [simp]: "gd cfg pj td None"
  by (simp add: gd_def)

lemma is_saved_simps [simp]:
  "is_saved (Saved j a b f)" "\<not> is_saved (Progress m)" "\<not> is_saved (ErrorSig x)"
  "\<not> is_saved Finished" "\<not> is_saved (ProgressMax v)" "\<not> is_saved (ProgressValue v)"
  "\<not> is_saved (PageMax v)" "\<not> is_saved (PageValue v)" "\<not> is_saved (Poll c)"
  "\<not> is_saved Mkdir" "\<not> is_saved (Search j q)" "\<not> is_saved (Track u)"
  "\<not> is_saved (Fetch u)" "\<not> is_saved Sleep"
  by (simp_all add: is_saved_def)

lemma count_event_other [simp]: "\<not> is_saved e \<Longrightarrow> count_event c e = c"
  by (cases e) (simp_all add: count_event_def)

lemma gd_emit: "\<not> is_saved e \<Longrightarrow> good cfg (pj, td) \<Longrightarrow> gd cfg pj td t \<Longrightarrow> gd cfg pj td (emit e t)"
  by (cases t) (simp_all add: gd_def emit_def)

lemma gd_emits:
  "\<not> list_ex is_saved es \<Longrightarrow> good cfg (pj, td) \<Longrightarrow> gd cfg pj td t \<Longrightarrow> gd cfg pj td (emits es t)"
  by (induction es) (auto intro: gd_emit)

lemma goods_quiet: "\<not> list_ex is_saved tr \<Longrightarrow> good cfg c \<Longrightarrow> goods cfg c tr"
  by (induction tr) simp_all

lemma gd_Some: "\<not> list_ex is_saved tr \<Longrightarrow> good cfg (pj, td) \<Longrightarrow> gd cfg pj td (Some tr)"
  by (simp add: gd_def goods_quiet)

lemma gd_saved:
  "good cfg (pj, td) \<Longrightarrow> gd cfg (pj(j := jd)) td' t \<Longrightarrow> gd cfg pj td (emit (Saved j jd td' f) t)"
  by (cases t) (simp_all add: gd_def emit_def count_event_def)

lemma gd_handler: "good cfg (pj, td) \<Longrightarrow> gd cfg pj td handler"
  by (simp add: handler_def gd_Some)

lemma inv_good: "job_inv cfg pj ji jd td \<Longrightarrow> good cfg (pj, td)"
  by (simp add: job_inv_def)

lemma sum_update:
  assumes "1 \<le> ji" "ji \<le> n"
  shows "(\<Sum>i<n. (pj(ji := v)) (Suc i)) = (\<Sum>i<n. pj (Suc i)) + v - (pj ji :: int)"
proof -
  have k: "ji - 1 \<in> {..<n}" "Suc (ji - 1) = ji" using assms by auto
  have a: "(\<Sum>i<n. (pj(ji := v)) (Suc i))
        = (pj(ji := v)) (Suc (ji - 1)) + (\<Sum>i\<in>{..<n} - {ji - 1}. (pj(ji := v)) (Suc i))"
    using k(1) by (subst sum.remove [of _ "ji - 1"]) auto
  have b: "(\<Sum>i\<in>{..<n} - {ji - 1}. (pj(ji := v)) (Suc i))
        = (\<Sum>i\<in>{..<n} - {ji - 1}. pj (Suc i))"
    using assms by (intro sum.cong) auto
  have c: "(\<Sum>i<n. pj (Suc i)) = pj (Suc (ji - 1)) + (\<Sum>i\<in>{..<n} - {ji - 1}. pj (Suc i))"
    using k(1) by (subst sum.remove [of _ "ji - 1"]) auto
  from a b k(2) have "(\<Sum>i<n. (pj(ji := v)) (Suc i)) = v + (\<Sum>i\<in>{..<n} - {ji - 1}. pj (Suc i))"
    by simp
  moreover from c k(2) have "(\<Sum>i<n. pj (Suc i)) = pj ji + (\<Sum>i\<in>{..<n} - {ji - 1}. pj (Suc i))"
    by simp
  ultimately show ?thesis by linarith
qed

lemma inv_saved:
  assumes "job_inv cfg pj ji jd td" "jd < count (jobs cfg ! (ji - 1))"
  shows "job_inv cfg (pj(ji := jd + 1)) ji (jd + 1) (td + 1)"
proof -
  from assms have g: "good cfg (pj, td)" and j: "1 \<le> ji" "ji \<le> length (jobs cfg)"
    and p: "pj ji = jd"
    by (auto simp: job_inv_def)
  have "(\<Sum>i<length (jobs cfg). (pj(ji := jd + 1)) (Suc i)) = td + 1"
    using sum_update [OF j, of pj "jd + 1"] g p by (simp add: good_def)
  moreover have "(pj(ji := jd + 1)) (Suc i) \<le> count (jobs cfg ! i)" if "i < length (jobs cfg)" for i
    using g that assms(2) by (cases "Suc i = ji") (auto simp: good_def)
  ultimately show ?thesis
    using assms(1) by (auto simp: job_inv_def good_def)
qed

lemma gd_poll:
  assumes "good cfg (pj, total_downloaded st)"
      and "\<And>b st'. total_downloaded st' = total_downloaded st
             \<Longrightarrow> gd cfg pj (total_downloaded st) (k b st')"
  shows "gd cfg pj (total_downloaded st) (poll w st k)"
  unfolding poll_def using assms by (intro gd_emit) simp_all

lemma gd_backoff_wait:
  assumes "good cfg (pj, td)" and "total_downloaded st = td"
      and "\<And>st'. total_downloaded st' = td \<Longrightarrow> gd cfg pj td (k st')"
  shows "gd cfg pj td (backoff_wait w n st k)"
  using assms
proof (induction n arbitrary: st)
  case 0
  then show ?case by simp
next
  case (Suc n)
  have ih: "gd cfg pj td (backoff_wait w n (polled st) k)"
    using Suc.IH [of "polled st"] Suc.prems by simp
  show ?case
    using Suc.prems(1) ih
    by (cases "stop_flag w st") (auto intro!: gd_emit gd_Some)
qed

lemma gd_interval_wait:
  assumes "good cfg (pj, td)" and "total_downloaded st = td"
      and "\<And>st'. total_downloaded st' = td \<Longrightarrow> gd cfg pj td (k st')"
  shows "gd cfg pj td (interval_wait w n st k)"
  using assms
proof (induction n arbitrary: st)
  case 0
  then show ?case by simp
next
  case (Suc n)
  have ih: "gd cfg pj td (interval_wait w n (polled st) k)"
    using Suc.IH [of "polled st"] Suc.prems by simp
  have "gd cfg pj td (k (polled st))" using Suc.prems by simp
  then show ?case
    using Suc.prems(1) ih
    by (cases "stop_flag w st") (auto intro!: gd_emit)
qed

lemma gd_handle_reply:
  assumes g: "good cfg (pj, td)" and s: "total_downloaded st = td"
      and a: "\<And>st'. total_downloaded st' = td \<Longrightarrow> gd cfg pj td (again st')"
      and k: "\<And>st'. total_downloaded st' = td \<Longrightarrow> gd cfg pj td (k st')"
  shows "gd cfg pj td (handle_reply w cfg' st reply again k)"
proof -
  have b: "gd cfg pj td (backoff_wait w n (st\<lparr>request_count := c, resp := r\<rparr>)
             (\<lambda>st3. emit (Progress RetryNow) (again st3)))" for n c r
    using g by (rule gd_backoff_wait) (simp_all add: s gd_emit g a)
  have k2: "gd cfg pj td (k (st\<lparr>request_count := c, resp := r\<rparr>))" for c r
    by (rule k) (simp add: s)
  show ?thesis
    using g k2 b
    by (auto simp: handle_reply_def split: search_reply.splits wait.splits option.splits
             intro!: gd_emit gd_Some gd_handler)
qed

lemma gd_request_page:
  assumes "good cfg (pj, td)" and "total_downloaded st = td"
      and "\<And>st'. total_downloaded st' = td \<Longrightarrow> gd cfg pj td (k st')"
  shows "gd cfg pj td (request_page fuel w cfg' ji kw page pn st k)"
  using assms
proof (induction fuel arbitrary: st)
  case 0
  then show ?case by simp
next
  case (Suc fuel)
  note g = Suc.prems(1) and s = Suc.prems(2) and k = Suc.prems(3)
  have h: "gd cfg pj td (handle_reply w cfg' (polled st) (search_net w (request_count (polled st)))
              (\<lambda>st3. request_page fuel w cfg' ji kw page pn st3 k) k)"
    using g
  proof (rule gd_handle_reply)
    show "total_downloaded (polled st) = td" using s by simp
    fix st' :: state assume "total_downloaded st' = td"
    then show "gd cfg pj td (request_page fuel w cfg' ji kw page pn st' k)"
      using g k by (intro Suc.IH)
  qed (rule k)
  have "gd cfg pj td (k (polled st))" using s by (intro k) simp
  then show ?case
    using g h
    by (cases "stop_flag w st") (auto intro!: gd_emit)
qed

lemma track_call_not_saved: "\<not> list_ex is_saved (snd (track_call i r))"
  by (auto simp: track_call_def split: track_reply.splits option.splits)

lemma gd_track:
  assumes "good cfg (pj, td)" and "total_downloaded st = td"
      and "\<And>u st'. total_downloaded st' = td \<Longrightarrow> gd cfg pj td (k u st')"
  shows "gd cfg pj td (track w i loc st k)"
  using assms
  by (auto simp: track_def track_call_not_saved split: option.splits
           intro!: gd_emit gd_emits)

lemma gd_download:
  assumes i: "job_inv cfg pj ji jd (total_downloaded st)"
      and lt: "jd < count (jobs cfg ! (ji - 1))"
      and k: "\<And>pj' jd' st'. job_inv cfg pj' ji jd' (total_downloaded st')
                \<Longrightarrow> gd cfg pj' (total_downloaded st') (k jd' st')"
  shows "gd cfg pj (total_downloaded st) (download w ji kw ti i' url jd st k)"
proof -
  let ?td = "total_downloaded st"
  let ?st1 = "st\<lparr>fetches := fetches st + 1\<rparr>"
  let ?st2 = "st\<lparr>fetches := fetches st + 1, total_downloaded := ?td + 1\<rparr>"
  have g: "good cfg (pj, ?td)" using i by (rule inv_good)
  have k1: "gd cfg pj ?td (k jd ?st1)"
    using k [of pj jd ?st1] i by simp
  have i2: "job_inv cfg (pj(ji := jd + 1)) ji (jd + 1) (?td + 1)"
    using i lt by (rule inv_saved)
  have k2: "gd cfg (pj(ji := jd + 1)) (?td + 1) (k (jd + 1) ?st2)"
    using k [of "pj(ji := jd + 1)" "jd + 1" ?st2] i2 by simp
  have g2: "good cfg (pj(ji := jd + 1), ?td + 1)"
    using i2 by (rule inv_good)
  have s: "gd cfg pj ?td
     (emit (Saved ji (jd + 1) (?td + 1) (file_name kw i'))
       (emit (ProgressValue (?td + 1))
         (emit (Progress (SavedFile (?td + 1) ti (file_name kw i')))
           (k (jd + 1) ?st2))))"
    using g
  proof (rule gd_saved)
    show "gd cfg (pj(ji := jd + 1)) (?td + 1)
       (emit (ProgressValue (?td + 1))
         (emit (Progress (SavedFile (?td + 1) ti (file_name kw i')))
           (k (jd + 1) ?st2)))"
      using g2 k2 by (intro gd_emit) simp_all
  qed
  show ?thesis
    using g k1 s
    by (auto simp: download_def Let_def split: fetch_reply.splits intro!: gd_emit)
qed

lemma gd_process_photo:
  assumes i: "job_inv cfg pj ji jd (total_downloaded st)"
      and lt: "jd < count (jobs cfg ! (ji - 1))"
      and k: "\<And>pj' jd' st'. job_inv cfg pj' ji jd' (total_downloaded st')
                \<Longrightarrow> gd cfg pj' (total_downloaded st') (k jd' st')"
  shows "gd cfg pj (total_downloaded st) (process_photo w ji kw ti p jd st k)"
  unfolding process_photo_def
proof (rule gd_track [OF inv_good [OF i] refl])
  fix u and st' :: state assume t: "total_downloaded st' = total_downloaded st"
  then have i': "job_inv cfg pj ji jd (total_downloaded st')" using i by simp
  have "gd cfg pj (total_downloaded st') (k jd st')" using i' by (rule k)
  moreover have "gd cfg pj (total_downloaded st') (download w ji kw ti (photo_id p) url jd st' k)"
    for url
    using i' lt k by (rule gd_download)
  ultimately show "gd cfg pj (total_downloaded st)
     (case fallback u p of
        None \<Rightarrow> emit (Progress (NoUrlSkip (photo_id p))) (k jd st')
      | Some url \<Rightarrow>
          if url = [] then emit (Progress (NoUrlSkip (photo_id p))) (k jd st')
          else download w ji kw ti (photo_id p) url jd st' k)"
    using inv_good [OF i] t
    by (auto split: option.splits intro!: gd_emit)
qed

lemma gd_photos_loop:
  assumes "job_inv cfg pj ji jd (total_downloaded st)"
      and "target = count (jobs cfg ! (ji - 1))"
      and "\<And>pj' jd' st'. job_inv cfg pj' ji jd' (total_downloaded st')
                \<Longrightarrow> gd cfg pj' (total_downloaded st') (k jd' st')"
  shows "gd cfg pj (total_downloaded st) (photos_loop w ji kw target ti ps jd st k)"
  using assms
proof (induction ps arbitrary: pj jd st)
  case Nil
  then show ?case by simp
next
  case (Cons p ps)
  note i = Cons.prems(1) and t = Cons.prems(2) and k = Cons.prems(3)
  have ip: "job_inv cfg pj ji jd (total_downloaded (polled st))"
    using i by simp
  have kp: "gd cfg pj (total_downloaded st) (k jd (polled st))"
    using k [OF ip] by simp
  have pp: "jd < target \<Longrightarrow> gd cfg pj (total_downloaded st) (process_photo w ji kw ti p jd (polled st)
              (\<lambda>jd' st2. photos_loop w ji kw target ti ps jd' st2 k))"
    using gd_process_photo [OF ip, of "\<lambda>jd' st2. photos_loop w ji kw target ti ps jd' st2 k"
            w kw ti p] t Cons.IH [OF _ t k]
    by simp
  show ?case
    using inv_good [OF i] kp pp
    by (cases "stop_flag w st") (auto intro!: gd_emit)
qed

lemma gd_after_photos:
  assumes i: "job_inv cfg pj ji jd (total_downloaded st)"
      and n: "\<And>pj' jd' st'. job_inv cfg pj' ji jd' (total_downloaded st')
                \<Longrightarrow> gd cfg pj' (total_downloaded st') (next jd' st')"
      and k: "\<And>pj' jd' st'. job_inv cfg pj' ji jd' (total_downloaded st')
                \<Longrightarrow> gd cfg pj' (total_downloaded st') (k jd' st')"
  shows "gd cfg pj (total_downloaded st) (after_photos w iv kw target pn page next k jd st)"
proof -
  let ?td = "total_downloaded st"
  have g: "good cfg (pj, ?td)" using i by (rule inv_good)
  have ck: "gd cfg pj ?td (k jd st')" if "total_downloaded st' = ?td" for st'
    using k [of pj jd st'] i that by simp
  have cn: "gd cfg pj ?td (next jd st')" if "total_downloaded st' = ?td" for st'
    using n [of pj jd st'] i that by simp
  have "gd cfg pj ?td (interval_wait w m st (\<lambda>st1.
           poll w st1 (\<lambda>b st2. if b then k jd st2 else next jd st2)))" for m
    using g refl
  proof (rule gd_interval_wait)
    fix st' :: state assume t: "total_downloaded st' = ?td"
    have "gd cfg pj (total_downloaded st') (poll w st' (\<lambda>b st2. if b then k jd st2 else next jd st2))"
    proof (rule gd_poll)
      show "good cfg (pj, total_downloaded st')" using g t by simp
      fix b and st'' :: state assume "total_downloaded st'' = total_downloaded st'"
      then have "total_downloaded st'' = ?td" using t by simp
      then show "gd cfg pj (total_downloaded st') (if b then k jd st'' else next jd st'')"
        using ck [of st''] cn [of st''] t by simp
    qed
    then show "gd cfg pj ?td (poll w st' (\<lambda>b st2. if b then k jd st2 else next jd st2))"
      using t by simp
  qed
  then show ?thesis
    using g ck [of st] cn [of st]
    by (auto simp: after_photos_def intro!: gd_emit)
qed

lemma gd_page_results:
  assumes i: "job_inv cfg pj ji jd (total_downloaded st)"
      and t: "target = count (jobs cfg ! (ji - 1))"
      and a: "\<And>pj' jd' st'. job_inv cfg pj' ji jd' (total_downloaded st')
                \<Longrightarrow> gd cfg pj' (total_downloaded st') (after jd' st')"
      and k: "\<And>pj' jd' st'. job_inv cfg pj' ji jd' (total_downloaded st')
                \<Longrightarrow> gd cfg pj' (total_downloaded st') (k jd' st')"
  shows "gd cfg pj (total_downloaded st) (page_results w ji kw target ti jd st after k)"
  unfolding page_results_def
proof (rule gd_poll [OF inv_good [OF i]])
  fix b and st' :: state assume e: "total_downloaded st' = total_downloaded st"
  then have i': "job_inv cfg pj ji jd (total_downloaded st')" using i by simp
  have g': "good cfg (pj, total_downloaded st')" using i' by (rule inv_good)
  have "gd cfg pj (total_downloaded st') (k jd st')" using i' by (rule k)
  moreover have "gd cfg pj (total_downloaded st') (photos_loop w ji kw target ti rs jd st' after)"
    for rs
    using i' t a by (rule gd_photos_loop)
  ultimately have "gd cfg pj (total_downloaded st')
     (if b then k jd st'
      else case resp st' of None \<Rightarrow> handler
        | Some r \<Rightarrow> case results r of None \<Rightarrow> handler
           | Some rs \<Rightarrow> if rs = [] then emit (Progress (NoMoreResults kw)) (k jd st')
              else photos_loop w ji kw target ti rs jd st' after)"
    using g' by (auto split: option.splits intro!: gd_emit gd_handler)
  then show "gd cfg pj (total_downloaded st)
     (if b then k jd st'
      else case resp st' of None \<Rightarrow> handler
        | Some r \<Rightarrow> case results r of None \<Rightarrow> handler
           | Some rs \<Rightarrow> if rs = [] then emit (Progress (NoMoreResults kw)) (k jd st')
              else photos_loop w ji kw target ti rs jd st' after)"
    using e by simp
qed

lemma gd_pages_loop:
  assumes "job_inv cfg pj ji jd (total_downloaded st)"
      and "target = count (jobs cfg ! (ji - 1))"
      and "\<And>pj' jd' st'. job_inv cfg pj' ji jd' (total_downloaded st')
                \<Longrightarrow> gd cfg pj' (total_downloaded st') (k jd' st')"
  shows "gd cfg pj (total_downloaded st)
           (pages_loop fuel w cfg' ti iv ji kw target pn pages jd st k)"
  using assms
proof (induction pages arbitrary: pj jd st)
  case Nil
  then show ?case by simp
next
  case (Cons page later)
  note i = Cons.prems(1) and t = Cons.prems(2) and k = Cons.prems(3)
  let ?td = "total_downloaded st"
  have g: "good cfg (pj, ?td)" using i by (rule inv_good)
  have kp: "gd cfg pj ?td (k jd (polled st))"
    using k [of pj jd "polled st"] i by simp
  let ?next = "\<lambda>jd' st3. pages_loop fuel w cfg' ti iv ji kw target pn later jd' st3 k"
  have nx: "gd cfg pj' (total_downloaded st') (?next jd' st')"
    if "job_inv cfg pj' ji jd' (total_downloaded st')" for pj' jd' st'
    using that t k by (rule Cons.IH)
  have rp: "gd cfg pj ?td (request_page fuel w cfg' ji kw page pn (polled st) (\<lambda>st2.
           page_results w ji kw target ti jd st2
             (after_photos w iv kw target pn page ?next k) k))"
    using g
  proof (rule gd_request_page)
    show "total_downloaded (polled st) = ?td" by simp
    fix st' :: state assume e: "total_downloaded st' = ?td"
    then have i': "job_inv cfg pj ji jd (total_downloaded st')" using i by simp
    have "gd cfg pj (total_downloaded st') (page_results w ji kw target ti jd st'
             (after_photos w iv kw target pn page ?next k) k)"
      using i' t
    proof (rule gd_page_results)
      fix pj' jd' and st'' :: state assume "job_inv cfg pj' ji jd' (total_downloaded st'')"
      then show "gd cfg pj' (total_downloaded st'')
                   (after_photos w iv kw target pn page ?next k jd' st'')"
        using nx k by (rule gd_after_photos)
    qed (rule k)
    then show "gd cfg pj ?td (page_results w ji kw target ti jd st'
             (after_photos w iv kw target pn page ?next k) k)"
      using e by simp
  qed
  show ?case
    using g kp rp
    by (cases "stop_flag w st") (auto intro!: gd_emit)
qed

lemma gd_finish: "good cfg (pj, total_downloaded st) \<Longrightarrow> gd cfg pj (total_downloaded st) (finish w st)"
  by (cases "stop_flag w st") (auto simp: finish_def intro!: gd_emit gd_Some)

lemma drop_Cons_facts:
  assumes "j # js = drop (ji - 1) xs" "1 \<le> (ji::nat)"
  shows "ji \<le> length xs" "j = xs ! (ji - 1)" "js = drop ((ji + 1) - 1) xs"
proof -
  have l: "ji - 1 < length xs"
    using assms(1) by (metis drop_all list.distinct(1) not_le_imp_less)
  then show "ji \<le> length xs" using assms(2) by simp
  from Cons_nth_drop_Suc [OF l] assms(1) have "j = xs ! (ji - 1)" "js = drop (Suc (ji - 1)) xs"
    by (metis list.inject)+
  then show "j = xs ! (ji - 1)" "js = drop ((ji + 1) - 1) xs"
    using assms(2) by simp_all
qed

lemma gd_jobs_loop:
  assumes "good cfg (pj, total_downloaded st)" and "\<forall>i\<ge>ji. pj i = 0" and "1 \<le> ji"
      and "js = drop (ji - 1) (jobs cfg)"
  shows "gd cfg pj (total_downloaded st) (jobs_loop fuel w cfg ti iv js ji st)"
  using assms
proof (induction js arbitrary: pj ji st)
  case Nil
  then show ?case by (simp add: gd_finish)
next
  case (Cons j js)
  note g = Cons.prems(1) and z = Cons.prems(2) and one = Cons.prems(3) and d = Cons.prems(4)
  note f = drop_Cons_facts [OF d one]
  let ?td = "total_downloaded st"
  have gp: "good cfg (pj, total_downloaded (polled st))" using g by simp
  have zn: "\<forall>i\<ge>ji + 1. pj i = 0" using z by simp
  have fin: "gd cfg pj ?td (finish w (polled st))"
    using gd_finish [OF gp] by simp
  have nxt: "gd cfg pj ?td (jobs_loop fuel w cfg ti iv js (ji + 1) (polled st))"
    using Cons.IH [OF gp zn _ f(3)] by simp
  have inv0: "job_inv cfg pj ji 0 (total_downloaded (polled st))"
    using g z one f(1) by (simp add: job_inv_def)
  have pl: "gd cfg pj (total_downloaded (polled st))
      (pages_loop fuel w cfg ti iv ji (keyword j) (count j) (pages_needed (count j))
         [1 .. pages_needed (count j)] 0 (polled st)
         (\<lambda>jd st2. poll w st2 (\<lambda>b2 st3.
              if b2 then finish w st3
              else jobs_loop fuel w cfg ti iv js (ji + 1) st3)))"
    using inv0
  proof (rule gd_pages_loop)
    show "count j = count (jobs cfg ! (ji - 1))" using f(2) by simp
    fix pj' jd' and st' :: state assume i': "job_inv cfg pj' ji jd' (total_downloaded st')"
    then have g': "good cfg (pj', total_downloaded st')" by (rule inv_good)
    from i' have z': "\<forall>i\<ge>ji + 1. pj' i = 0" by (simp add: job_inv_def)
    show "gd cfg pj' (total_downloaded st') (poll w st' (\<lambda>b2 st3.
              if b2 then finish w st3
              else jobs_loop fuel w cfg ti iv js (ji + 1) st3))"
    proof (rule gd_poll [OF g'])
      fix b and st'' :: state assume e: "total_downloaded st'' = total_downloaded st'"
      then have g'': "good cfg (pj', total_downloaded st'')" using g' by simp
      have "gd cfg pj' (total_downloaded st'') (finish w st'')" using g'' by (rule gd_finish)
      moreover have "gd cfg pj' (total_downloaded st'') (jobs_loop fuel w cfg ti iv js (ji + 1) st'')"
        using g'' z' _ f(3) by (rule Cons.IH) simp
      ultimately show "gd cfg pj' (total_downloaded st') (if b then finish w st''
              else jobs_loop fuel w cfg ti iv js (ji + 1) st'')"
        using e by simp
    qed
  qed
  then have pl': "gd cfg pj ?td
      (pages_loop fuel w cfg ti iv ji (keyword j) (count j) (pages_needed (count j))
         [1 .. pages_needed (count j)] 0 (polled st)
         (\<lambda>jd st2. poll w st2 (\<lambda>b2 st3.
              if b2 then finish w st3
              else jobs_loop fuel w cfg ti iv js (ji + 1) st3)))"
    by simp
  show ?case
    using g fin nxt pl'
    by (cases "stop_flag w st") (auto intro!: gd_emit)
qed

lemma good_initial:
  "\<forall>j\<in>set (jobs cfg). 0 \<le> count j \<Longrightarrow> good cfg (\<lambda>j. 0, 0)"
  by (simp add: good_def)

lemma gd_run:
  assumes "\<forall>j\<in>set (jobs cfg). 0 \<le> count j"
  shows "gd cfg (\<lambda>j. 0) 0 (run fuel w cfg)"
proof -
  have g: "good cfg (\<lambda>j. 0, total_downloaded init_state)"
    using good_initial [OF assms] by (simp add: init_state_def)
  have "gd cfg (\<lambda>j. 0) (total_downloaded init_state)
          (jobs_loop fuel w cfg ti iv (jobs cfg) 1 init_state)" for ti iv
    using g by (rule gd_jobs_loop) simp_all
  then have "gd cfg (\<lambda>j. 0) 0 (jobs_loop fuel w cfg ti iv (jobs cfg) 1 init_state)" for ti iv
    by (simp add: init_state_def)
  then show ?thesis
    using good_initial [OF assms] by (auto simp: run_def intro!: gd_emit gd_Some gd_handler)
qed

lemma goods_prefix:
  "goods cfg c tr \<Longrightarrow> prefix p tr \<Longrightarrow> good cfg (foldl count_event c p)"
proof (induction tr arbitrary: c p)
  case Nil
  then show ?case by simp
next
  case (Cons e tr)
  then show ?case by (cases p) auto
qed

lemma counters_invariant:
  assumes r: "run fuel w cfg = Some tr" and c: "\<forall>j\<in>set (jobs cfg). 0 \<le> count j"
      and p: "prefix p tr"
  shows "(\<forall>i<length (jobs cfg). per_job_downloaded p (Suc i) \<le> count (jobs cfg ! i))
       \<and> total_downloaded_at p = (\<Sum>i<length (jobs cfg). per_job_downloaded p (Suc i))
       \<and> total_downloaded_at p \<le> sum_list (map count (jobs cfg))"
proof -
  from gd_run [OF c, of fuel w] r have "goods cfg (\<lambda>j. 0, 0) tr"
    by (simp add: gd_def)
  from goods_prefix [OF this p] have g: "good cfg (counters_after p)"
    by (simp add: counters_after_def)
  then have a: "\<forall>i<length (jobs cfg). per_job_downloaded p (Suc i) \<le> count (jobs cfg ! i)"
    and b: "total_downloaded_at p = (\<Sum>i<length (jobs cfg). per_job_downloaded p (Suc i))"
    by (simp_all add: good_def per_job_downloaded_def total_downloaded_at_def)
  have "(\<Sum>i<length (jobs cfg). per_job_downloaded p (Suc i))
        \<le> (\<Sum>i<length (jobs cfg). count (jobs cfg ! i))"
    using a by (intro sum_mono) simp
  also have "\<dots> = sum_list (map count (jobs cfg))"
    by (simp add: sum_list_sum_nth atLeast0LessThan)
  finally show ?thesis using a b by simp
qed


text \<open>
  C1. At every point of every run (every prefix \<open>p\<close> of its trace), the count of each
  job is at most its target, the total is the sum of the counts of the jobs, and so the
  total is at most the sum of the targets. The jobs are those of the data model, with
  targets that are not negative: \<^verbatim>\<open>run\<close> skips a job with a negative target, whose
  count 0 then exceeds it.
\<close>

theorem counters_within_targets:
  "run fuel w cfg = Some tr \<Longrightarrow> \<forall>j\<in>set (jobs cfg). 0 \<le> count j \<Longrightarrow> prefix p tr \<Longrightarrow>
   (\<forall>i<length (jobs cfg). per_job_downloaded p (Suc i) \<le> count (jobs cfg ! i))
   \<and> total_downloaded_at p = (\<Sum>i<length (jobs cfg). per_job_downloaded p (Suc i))
   \<and> total_downloaded_at p \<le> sum_list (map count (jobs cfg))"
  by (rule counters_invariant)

theorem counters_within_targets_witness:
  "run 1 demo_world demo_config = Some demo_trace
   \<and> list_all (\<lambda>j. 0 \<le> count j) (jobs demo_config)
   \<and> prefix (take 18 demo_trace) demo_trace
   \<and> per_job_downloaded (take 18 demo_trace) (Suc 0) = 1
   \<and> per_job_downloaded (take 18 demo_trace) (Suc 1) = 0
   \<and> total_downloaded_at (take 18 demo_trace) = 1
   \<and> per_job_downloaded (take 18 demo_trace) (Suc 0) \<le> count (jobs demo_config ! 0)
   \<and> per_job_downloaded (take 18 demo_trace) (Suc 1) \<le> count (jobs demo_config ! 1)
   \<and> total_downloaded_at (take 18 demo_trace)
       = (\<Sum>i<length (jobs demo_config). per_job_downloaded (take 18 demo_trace) (Suc i))
   \<and> total_downloaded_at (take 18 demo_trace) \<le> sum_list (map count (jobs demo_config))"
proof -
  have c: "\<forall>j\<in>set (jobs demo_config). 0 \<le> count j"
    by (simp add: demo_config_def)
  then have c': "list_all (\<lambda>j. 0 \<le> count j) (jobs demo_config)"
    by (simp add: list_all_iff)
  have p: "prefix (take 18 demo_trace) demo_trace"
    by (rule take_is_prefix)
  have v: "per_job_downloaded (take 18 demo_trace) (Suc 0) = 1"
          "per_job_downloaded (take 18 demo_trace) (Suc 1) = 0"
          "total_downloaded_at (take 18 demo_trace) = 1"
    by (simp_all add: per_job_downloaded_def total_downloaded_at_def counters_after_def
          demo_trace_def count_event_def)
  have l: "0 < length (jobs demo_config)" "1 < length (jobs demo_config)"
    by (simp_all add: demo_config_def)
  note t = counters_within_targets [OF demo_run c p]
  from t l have "per_job_downloaded (take 18 demo_trace) (Suc 0) \<le> count (jobs demo_config ! 0)"
    and "per_job_downloaded (take 18 demo_trace) (Suc 1) \<le> count (jobs demo_config ! 1)"
    by blast+
  with t demo_run c' p v show ?thesis
    by blast
qed

section \<open>The wait after a rate limit\<close>

lemma decimal_not_space: "is_decimal c \<Longrightarrow> \<not> is_space c"
  by (auto simp: is_decimal_def is_space_def)

lemma digit_char_not_space: "is_digit_char c \<Longrightarrow> \<not> is_space c"
  by (auto simp: is_digit_char_def is_decimal_def is_space_def)

lemma strip_digits: "list_all is_digit_char s \<Longrightarrow> strip s = s"
proof -
  assume a: "list_all is_digit_char s"
  have d: "list_all is_digit_char t \<Longrightarrow> dropWhile is_space t = t" for t
    by (cases t) (auto simp: digit_char_not_space)
  have "list_all is_digit_char (rev s)" using a by (simp add: list_all_iff)
  with a d show ?thesis by (simp add: strip_def)
qed

lemma parse_digits_decimal:
  "list_all is_decimal s \<Longrightarrow> parse_digits acc s = Some (foldl (\<lambda>a c. 10 * a + digit_value c) acc s)"
  by (induction acc s rule: parse_digits.induct) auto

lemma parse_digits_bad:
  "list_all is_digit_char s \<Longrightarrow> \<not> list_all is_decimal s \<Longrightarrow> parse_digits acc s = None"
  by (induction acc s rule: parse_digits.induct)
     (auto simp: is_digit_char_def code_point_def)

lemma digit_char_not_sign: "is_digit_char c \<Longrightarrow> c \<noteq> CHR ''+'' \<and> c \<noteq> CHR ''-''"
  by (auto simp: is_digit_char_def is_decimal_def code_point_def)

lemma py_int_decimal:
  assumes "s \<noteq> []" "list_all is_decimal s"
  shows "py_int s = Some (decimal_value s)"
proof -
  from assms obtain c cs where s: "s = c # cs" by (cases s) auto
  have dc: "list_all is_digit_char s" using assms(2)
    by (auto simp: list_all_iff is_digit_char_def)
  then have "c \<noteq> CHR ''+''" "c \<noteq> CHR ''-''" using s digit_char_not_sign by auto
  then show ?thesis
    using assms(2) s strip_digits [OF dc]
    by (simp add: py_int_def parse_unsigned_def parse_digits_decimal decimal_value_def)
qed

lemma py_int_superscript:
  assumes "isdigit s" "\<not> list_all is_decimal s"
  shows "py_int s = None"
proof -
  from assms obtain c cs where s: "s = c # cs" by (cases s) (auto simp: isdigit_def)
  have dc: "list_all is_digit_char s" using assms(1) by (simp add: isdigit_def)
  then have "c \<noteq> CHR ''+''" "c \<noteq> CHR ''-''" using s digit_char_not_sign by auto
  moreover have "is_decimal c \<Longrightarrow> parse_digits (digit_value c) cs = None"
    using parse_digits_bad [of cs "digit_value c"] dc assms(2) s by simp
  ultimately show ?thesis
    using s strip_digits [OF dc]
    by (simp add: py_int_def parse_unsigned_def)
qed

text \<open>
  The wait computed for a 403 or 429 answer, by cases. Without auto retry there is
  none. With it: when the remaining header parses to 0 and the reset header passes
  \<^verbatim>\<open>isdigit\<close>, the wait is the time to the reset, not below 0, if the header consists of
  decimal digits, and \<^verbatim>\<open>int\<close> raises if it holds a superscript digit; otherwise the
  wait is 3600 when the body holds the marker, and there is none when it does not.
\<close>

lemma retry_wait_table:
  "retry_wait cfg r now =
     (if \<not> auto_retry cfg then WaitSec None
      else if remaining_int (hdr_remaining r) = Some 0 \<and> hdr_reset r \<noteq> None
              \<and> isdigit (the (hdr_reset r))
           then (if list_all is_decimal (the (hdr_reset r))
                 then WaitSec (Some (max 0 (decimal_value (the (hdr_reset r)) - now)))
                 else ValueError)
      else if contains marker (body_text r) then WaitSec (Some 3600)
      else WaitSec None)"
proof (cases "hdr_reset r")
  case None
  then show ?thesis by (simp add: retry_wait_def wait_sec_def truthy_def)
next
  case (Some s)
  show ?thesis
  proof (cases "isdigit s")
    case False
    then show ?thesis using Some by (simp add: retry_wait_def wait_sec_def truthy_def)
  next
    case True
    then have ne: "s \<noteq> []" by (simp add: isdigit_def)
    show ?thesis
    proof (cases "list_all is_decimal s")
      case d: True
      then show ?thesis
        using Some True ne py_int_decimal [OF ne d]
        by (simp add: retry_wait_def wait_sec_def truthy_def)
    next
      case d: False
      then show ?thesis
        using Some True ne py_int_superscript [OF True d]
        by (simp add: retry_wait_def wait_sec_def truthy_def)
    qed
  qed
qed


lemma superscript_run: "run 1 superscript_world demo_config = Some superscript_trace"
  by code_simp

text \<open>
  C2 fails on the code for a reset header with a superscript digit. Such a header is
  not a number, so by the claim it is unusable and the marker in the body gives a wait
  of 3600 seconds. In the code \<^verbatim>\<open>reset_ts.isdigit()\<close> holds and \<^verbatim>\<open>int(reset_ts)\<close>
  raises: no wait is computed, and the run ends in the outermost handler.
\<close>

theorem superscript_reset_header_raises:
  "remaining_int (hdr_remaining superscript_page) = Some 0
   \<and> \<not> list_all is_decimal (the (hdr_reset superscript_page))
   \<and> contains marker (body_text superscript_page)
   \<and> retry_wait demo_config superscript_page 1000 = ValueError
   \<and> run 1 superscript_world demo_config = Some superscript_trace"
proof -
  have "remaining_int (hdr_remaining superscript_page) = Some 0"
    by code_simp
  moreover have "\<not> list_all is_decimal (the (hdr_reset superscript_page))"
    by code_simp
  moreover have "contains marker (body_text superscript_page)"
    by code_simp
  moreover have "retry_wait demo_config superscript_page 1000 = ValueError"
    by code_simp
  ultimately show ?thesis using superscript_run by blast
qed

end
